theory Spec2Isabelle
  imports Main
begin

section \<open>The tags search index: data model\<close>

text \<open>
  The module under verification keeps the search index \<open>tags\<close> in step with the
  relational store. Everything it does beyond computing is a call to the store
  (\<open>db\<close>) or to the search engine (\<open>client\<close>, \<open>getOrCreateIndex\<close>). Those calls are
  modelled as oracles that answer by the position of the call in the run (the number of
  external calls made before it), so that the store and the engine may change between two
  calls; a rejected promise is the value \<open>Inl\<close>. A run returns its outcome together
  with the list of the external calls it made, each with its answer. The calls to
  \<open>console.log\<close> are left out.
\<close>

type_synonym timestamp = int

datatype MetricTimeframe = Day | Week | Month | Year | AllTime

record MetricCounts =
  postCount :: int
  articleCount :: int
  followerCount :: int
  modelCount :: int
  imageCount :: int
  hiddenCount :: int

record TagMetric = MetricCounts +
  timeframe :: MetricTimeframe

text \<open>A row of the table \<open>Tag\<close>, with its metric rows (one-to-many).\<close>

record Tag =
  tag_id :: int
  name :: string
  nsfw :: bool
  isCategory :: bool
  unlisted :: bool
  adminOnly :: bool
  createdAt :: timestamp
  updatedAt :: timestamp
  metrics :: "TagMetric list"

text \<open>A row of the table \<open>SearchIndexUpdateQueue\<close>.\<close>

record SearchIndexUpdateQueueItem =
  q_type :: string
  q_id :: int

record Database =
  tag :: "Tag list"
  searchIndexUpdateQueue :: "SearchIndexUpdateQueueItem list"

text \<open>What \<open>db.tag.findMany\<close> returns for the \<open>select\<close> of the source.\<close>

record TagRecord =
  r_id :: int
  r_name :: string
  r_nsfw :: bool
  r_isCategory :: bool
  r_metrics :: "MetricCounts list"

text \<open>
  The index document: the selected record with \<open>metrics\<close> replaced by one object, here
  the list of its own properties in insertion order.
\<close>

record TagDocument =
  d_id :: int
  d_name :: string
  d_nsfw :: bool
  d_isCategory :: bool
  d_metrics :: "(string \<times> int) list"

datatype error = PrismaError string | MeiliSearchError string

record EnqueuedTask =
  taskUid :: nat
  indexUid :: string

subsection \<open>The query of the fetch\<close>

datatype TagWhereOr = CreatedAtGt timestamp | UpdatedAtGt timestamp | IdIn "int list"

text \<open>
  The \<open>where\<close> object of the fetch. \<open>w_OR = None\<close> is \<open>OR: undefined\<close>, which Prisma
  ignores; \<open>Some cs\<close> holds when one of \<open>cs\<close> holds (none for the empty list).
\<close>

record TagWhere =
  w_unlisted :: bool
  w_adminOnly :: bool
  w_OR :: "TagWhereOr list option"

record TagFindManyArgs =
  skip :: nat
  take_n :: nat
  metrics_where :: MetricTimeframe
  tag_where :: TagWhere

fun or_holds :: "TagWhereOr \<Rightarrow> Tag \<Rightarrow> bool" where
  "or_holds (CreatedAtGt ts) t = (ts < createdAt t)"
| "or_holds (UpdatedAtGt ts) t = (ts < updatedAt t)"
| "or_holds (IdIn ids) t = (tag_id t \<in> set ids)"

definition where_holds :: "TagWhere \<Rightarrow> Tag \<Rightarrow> bool" where
  "where_holds wh t =
     (unlisted t = w_unlisted wh \<and> adminOnly t = w_adminOnly wh \<and>
      (case w_OR wh of None \<Rightarrow> True | Some cs \<Rightarrow> list_ex (\<lambda>c. or_holds c t) cs))"

definition select_metric :: "TagMetric \<Rightarrow> MetricCounts" where
  "select_metric m =
     \<lparr>postCount = postCount m, articleCount = articleCount m,
      followerCount = followerCount m, modelCount = modelCount m,
      imageCount = imageCount m, hiddenCount = hiddenCount m\<rparr>"

definition select_tag :: "MetricTimeframe \<Rightarrow> Tag \<Rightarrow> TagRecord" where
  "select_tag tf t =
     \<lparr>r_id = tag_id t, r_name = name t, r_nsfw = nsfw t, r_isCategory = isCategory t,
      r_metrics = map select_metric (filter (\<lambda>m. timeframe m = tf) (metrics t))\<rparr>"

text \<open>\<open>db.tag.findMany\<close> on the store as it is when the call is made.\<close>

definition tag_findMany ::
  "error + Database \<Rightarrow> TagFindManyArgs \<Rightarrow> error + TagRecord list" where
  "tag_findMany d a =
     (case d of
        Inl e \<Rightarrow> Inl e
      | Inr dbs \<Rightarrow>
          Inr (take (take_n a) (drop (skip a)
                 (map (select_tag (metrics_where a))
                    (filter (where_holds (tag_where a)) (tag dbs))))))"

text \<open>\<open>db.searchIndexUpdateQueue.findMany\<close> with \<open>select: {id}\<close> and \<open>where: {type}\<close>.\<close>

definition queue_findMany :: "error + Database \<Rightarrow> string \<Rightarrow> error + int list" where
  "queue_findMany d ty =
     (case d of
        Inl e \<Rightarrow> Inl e
      | Inr dbs \<Rightarrow> Inr (map q_id (filter (\<lambda>q. q_type q = ty) (searchIndexUpdateQueue dbs))))"

subsection \<open>The engine, the run context and the trace\<close>

text \<open>
  The search engine client. The first argument of each oracle is the position of the call
  in the run. The two attribute updates are methods of the index object that
  \<open>getOrCreateIndex\<close> returns; the index is named by its uid.
\<close>

record MeiliSearch =
  updateSearchableAttributes :: "nat \<Rightarrow> string \<Rightarrow> string list \<Rightarrow> error + EnqueuedTask"
  updateSortableAttributes :: "nat \<Rightarrow> string \<Rightarrow> string list \<Rightarrow> error + EnqueuedTask"
  updateDocuments :: "nat \<Rightarrow> string \<Rightarrow> TagDocument list \<Rightarrow> error + EnqueuedTask"
  waitForTasks :: "nat \<Rightarrow> nat list \<Rightarrow> error + unit"

text \<open>
  The module-level imports: \<open>client\<close>, which may be null, and \<open>getOrCreateIndex\<close>,
  which resolves to an index or to null, or rejects.
\<close>

record world =
  client :: "MeiliSearch option"
  getOrCreateIndex :: "nat \<Rightarrow> string \<Rightarrow> error + string option"

record SearchIndexRunContext =
  db :: "nat \<Rightarrow> error + Database"
  lastUpdatedAt :: "timestamp option"

datatype event =
    GetOrCreateIndex string "error + string option"
  | UpdateSearchableAttributes string "string list" "error + EnqueuedTask"
  | UpdateSortableAttributes string "string list" "error + EnqueuedTask"
  | WaitForTasks "nat list" "error + unit"
  | QueueFindMany string "error + int list"
  | TagFindMany TagFindManyArgs "error + TagRecord list"
  | UpdateDocuments string "TagDocument list" "error + EnqueuedTask"

type_synonym trace = "event list"

section \<open>The program\<close>

definition READ_BATCH_SIZE :: nat where
  "READ_BATCH_SIZE = 100"

definition INDEX_NAME :: string where
  "INDEX_NAME = ''tags''"

definition sortableAttributes :: "string list" where
  "sortableAttributes =
     [''creation_date'', ''metrics.postCount'', ''metrics.articleCount'',
      ''metrics.followerCount'', ''metrics.modelCount'', ''metrics.imageCount'',
      ''metrics.hiddenCount'']"

definition onIndexSetup :: "world \<Rightarrow> trace \<Rightarrow> (error + unit) \<times> trace" where
  "onIndexSetup w tr =
     (case client w of
        None \<Rightarrow> (Inr (), tr)
      | Some c \<Rightarrow>
         (let index = getOrCreateIndex w (length tr) INDEX_NAME;
              tr1 = tr @ [GetOrCreateIndex INDEX_NAME index]
          in case index of
               Inl e \<Rightarrow> (Inl e, tr1)
             | Inr None \<Rightarrow> (Inr (), tr1)
             | Inr (Some ix) \<Rightarrow>
                (let t1 = updateSearchableAttributes c (length tr1) ix [''name''];
                     tr2 = tr1 @ [UpdateSearchableAttributes ix [''name''] t1]
                 in case t1 of
                      Inl e \<Rightarrow> (Inl e, tr2)
                    | Inr updateSearchableAttributesTask \<Rightarrow>
                       (let t2 = updateSortableAttributes c (length tr2) ix sortableAttributes;
                            tr3 = tr2 @ [UpdateSortableAttributes ix sortableAttributes t2]
                        in case t2 of
                             Inl e \<Rightarrow> (Inl e, tr3)
                           | Inr sortableFieldsAttributesTask \<Rightarrow>
                              (let uids = [taskUid updateSearchableAttributesTask,
                                           taskUid sortableFieldsAttributesTask];
                                   r = waitForTasks c (length tr3) uids
                               in (r, tr3 @ [WaitForTasks uids r]))))))"

text \<open>
  The \<open>where\<close> object of the fetch, from the watermark and the queued items.
  \<open>!lastUpdatedAt\<close> holds for null and undefined only (a \<open>Date\<close> is never falsy).
\<close>

definition tag_query :: "timestamp option \<Rightarrow> int list \<Rightarrow> TagWhere" where
  "tag_query lu queuedItems =
     \<lparr>w_unlisted = False, w_adminOnly = False,
      w_OR = (case lu of
                None \<Rightarrow> None
              | Some ts \<Rightarrow> Some [CreatedAtGt ts, UpdatedAtGt ts, IdIn queuedItems])\<rparr>"

definition fetch_args :: "timestamp option \<Rightarrow> int list \<Rightarrow> nat \<Rightarrow> TagFindManyArgs" where
  "fetch_args lu queuedItems offset =
     \<lparr>skip = offset, take_n = READ_BATCH_SIZE, metrics_where = AllTime,
      tag_where = tag_query lu queuedItems\<rparr>"

definition metric_object :: "MetricCounts \<Rightarrow> (string \<times> int) list" where
  "metric_object m =
     [(''postCount'', postCount m), (''articleCount'', articleCount m),
      (''followerCount'', followerCount m), (''modelCount'', modelCount m),
      (''imageCount'', imageCount m), (''hiddenCount'', hiddenCount m)]"

text \<open>
  The body of \<open>tags.map\<close>: the record spread, with \<open>metrics\<close> the spread of
  \<open>tagRecord.metrics[0] || {}\<close>.
\<close>

definition indexReadyRecord :: "TagRecord \<Rightarrow> TagDocument" where
  "indexReadyRecord tagRecord =
     \<lparr>d_id = r_id tagRecord, d_name = r_name tagRecord, d_nsfw = r_nsfw tagRecord,
      d_isCategory = r_isCategory tagRecord,
      d_metrics = (case r_metrics tagRecord of [] \<Rightarrow> [] | m # _ \<Rightarrow> metric_object m)\<rparr>"

text \<open>
  The \<open>while\<close> loop of \<open>onIndexUpdate\<close>, on its variables \<open>offset\<close> and \<open>tagTasks\<close> and
  the trace, with the guard \<open>offset < READ_BATCH_SIZE\<close> as the source has it (under the
  comment that the limit is to be removed). It is defined without a termination argument:
  \<open>None\<close> is a loop that never ends.
\<close>

partial_function (option) fetch_loop ::
  "MeiliSearch \<Rightarrow> SearchIndexRunContext \<Rightarrow> int list \<Rightarrow> nat \<Rightarrow> EnqueuedTask list \<Rightarrow> trace
     \<Rightarrow> ((error + EnqueuedTask list) \<times> trace) option" where
  "fetch_loop c ctx queuedItems offset tagTasks tr =
     (if offset < READ_BATCH_SIZE then
        (let a = fetch_args (lastUpdatedAt ctx) queuedItems offset;
             tags = tag_findMany (db ctx (length tr)) a;
             tr1 = tr @ [TagFindMany a tags]
         in case tags of
              Inl e \<Rightarrow> Some (Inl e, tr1)
            | Inr tags \<Rightarrow>
               if length tags = 0 then Some (Inr tagTasks, tr1)
               else
                 (let indexReadyRecords = map indexReadyRecord tags;
                      task = updateDocuments c (length tr1) INDEX_NAME indexReadyRecords;
                      tr2 = tr1 @ [UpdateDocuments INDEX_NAME indexReadyRecords task]
                  in case task of
                       Inl e \<Rightarrow> Some (Inl e, tr2)
                     | Inr task \<Rightarrow>
                        fetch_loop c ctx queuedItems (offset + length tags)
                          (tagTasks @ [task]) tr2))
      else Some (Inr tagTasks, tr))"

definition onIndexUpdate ::
  "world \<Rightarrow> SearchIndexRunContext \<Rightarrow> ((error + unit) \<times> trace) option" where
  "onIndexUpdate w ctx =
     (case client w of
        None \<Rightarrow> Some (Inr (), [])
      | Some c \<Rightarrow>
         (case onIndexSetup w [] of
            (Inl e, tr) \<Rightarrow> Some (Inl e, tr)
          | (Inr _, tr) \<Rightarrow>
             (let queuedItems = queue_findMany (db ctx (length tr)) INDEX_NAME;
                  tr1 = tr @ [QueueFindMany INDEX_NAME queuedItems]
              in case queuedItems of
                   Inl e \<Rightarrow> Some (Inl e, tr1)
                 | Inr queuedItems \<Rightarrow>
                    (case fetch_loop c ctx queuedItems 0 [] tr1 of
                       None \<Rightarrow> None
                     | Some (Inl e, tr2) \<Rightarrow> Some (Inl e, tr2)
                     | Some (Inr tagTasks, tr2) \<Rightarrow>
                        (let uids = map taskUid tagTasks;
                             r = waitForTasks c (length tr2) uids
                         in Some (r, tr2 @ [WaitForTasks uids r]))))))"

section \<open>Reading a trace\<close>

fun fetch_of :: "event \<Rightarrow> (TagFindManyArgs \<times> (error + TagRecord list)) option" where
  "fetch_of (TagFindMany a r) = Some (a, r)"
| "fetch_of _ = None"

fun submit_of :: "event \<Rightarrow> (string \<times> TagDocument list \<times> (error + EnqueuedTask)) option" where
  "submit_of (UpdateDocuments ix docs r) = Some (ix, docs, r)"
| "submit_of _ = None"

fun task_of :: "event \<Rightarrow> EnqueuedTask option" where
  "task_of (UpdateDocuments ix docs (Inr t)) = Some t"
| "task_of _ = None"

fun queue_read_of :: "event \<Rightarrow> (string \<times> (error + int list)) option" where
  "queue_read_of (QueueFindMany ty r) = Some (ty, r)"
| "queue_read_of _ = None"

fun wait_of :: "event \<Rightarrow> (nat list \<times> (error + unit)) option" where
  "wait_of (WaitForTasks uids r) = Some (uids, r)"
| "wait_of _ = None"

text \<open>The page fetches, the submissions, the task handles the engine returned, the reads
  of the pending-change queue and the waits of a trace, each in the order of the calls.\<close>

definition fetches :: "trace \<Rightarrow> (TagFindManyArgs \<times> (error + TagRecord list)) list" where
  "fetches tr = List.map_filter fetch_of tr"

definition submissions :: "trace \<Rightarrow> (string \<times> TagDocument list \<times> (error + EnqueuedTask)) list" where
  "submissions tr = List.map_filter submit_of tr"

definition returned_tasks :: "trace \<Rightarrow> EnqueuedTask list" where
  "returned_tasks tr = List.map_filter task_of tr"

definition queue_reads :: "trace \<Rightarrow> (string \<times> (error + int list)) list" where
  "queue_reads tr = List.map_filter queue_read_of tr"

definition waits :: "trace \<Rightarrow> (nat list \<times> (error + unit)) list" where
  "waits tr = List.map_filter wait_of tr"

text \<open>The records of the pages a trace fetched, in order.\<close>

fun page_of :: "TagFindManyArgs \<times> (error + TagRecord list) \<Rightarrow> TagRecord list" where
  "page_of (a, Inr page) = page"
| "page_of (a, Inl e) = []"

definition fetched :: "trace \<Rightarrow> TagRecord list" where
  "fetched tr = concat (map page_of (fetches tr))"

text \<open>
  The offsets of successive fetches: the first is \<open>off\<close>, each next one is the one
  before plus the number of records that fetch returned, and a fetch that was rejected or
  returned no record is the last.
\<close>

fun offsets_chain :: "nat \<Rightarrow> (TagFindManyArgs \<times> (error + TagRecord list)) list \<Rightarrow> bool" where
  "offsets_chain off [] = True"
| "offsets_chain off ((a, r) # rest) =
     (skip a = off \<and> off < READ_BATCH_SIZE \<and>
      (case r of
         Inl e \<Rightarrow> rest = []
       | Inr page \<Rightarrow> (page = [] \<longrightarrow> rest = []) \<and> offsets_chain (off + length page) rest))"

text \<open>
  The events of a whole pass through the loop entered at \<open>off\<close>: none when the guard
  fails at once; otherwise a fetch at \<open>off\<close>, which ends the loop when it is rejected or
  returns no record, and is else followed by the submission of the documents of its page,
  which ends the loop when it is rejected, and is else followed by the events of the loop
  entered at \<open>off\<close> plus the number of records of the page.
\<close>

fun loop_run :: "nat \<Rightarrow> trace \<Rightarrow> bool" where
  "loop_run off [] = (\<not> off < READ_BATCH_SIZE)"
| "loop_run off (TagFindMany a r # rest) =
     (skip a = off \<and> off < READ_BATCH_SIZE \<and>
      (case r of
         Inl e \<Rightarrow> rest = []
       | Inr page \<Rightarrow>
          if page = [] then rest = []
          else
            (case rest of
               UpdateDocuments ix docs t # rest' \<Rightarrow>
                 docs = map indexReadyRecord page \<and>
                 (case t of
                    Inl e \<Rightarrow> rest' = []
                  | Inr task \<Rightarrow> loop_run (off + length page) rest')
             | _ \<Rightarrow> False)))"
| "loop_run off (_ # rest) = False"

text \<open>The fetches and submissions of a trace, in order.\<close>

definition loop_events :: "trace \<Rightarrow> trace" where
  "loop_events tr = filter (\<lambda>e. fetch_of e \<noteq> None \<or> submit_of e \<noteq> None) tr"

section \<open>What the loop leaves behind\<close>

text \<open>
  The events \<open>new\<close> that the loop adds to the trace when it is entered at \<open>offset\<close>
  with the handles \<open>tasks\<close> and leaves with \<open>res\<close>: only fetches and submissions;
  every fetch asks for the query built from the watermark and the queued items \<open>q\<close> and is
  answered by the store; every submission carries the documents of a fetched page; the
  handles returned are those held before and those the submissions returned; the offsets
  advance by the records returned, below the batch size.
\<close>

definition loop_post ::
  "SearchIndexRunContext \<Rightarrow> int list \<Rightarrow> nat \<Rightarrow> EnqueuedTask list
     \<Rightarrow> (error + EnqueuedTask list) \<Rightarrow> trace \<Rightarrow> bool" where
  "loop_post ctx q offset tasks res new \<longleftrightarrow>
     (\<forall>e\<in>set new. fetch_of e \<noteq> None \<or> submit_of e \<noteq> None) \<and>
     (\<forall>a r. TagFindMany a r \<in> set new \<longrightarrow>
        a = fetch_args (lastUpdatedAt ctx) q (skip a) \<and> (\<exists>k. tag_findMany (db ctx k) a = r)) \<and>
     (\<forall>ix docs t. UpdateDocuments ix docs t \<in> set new \<longrightarrow>
        ix = INDEX_NAME \<and>
        (\<exists>a page. TagFindMany a (Inr page) \<in> set new \<and> docs = map indexReadyRecord page)) \<and>
     (\<forall>tasks'. res = Inr tasks' \<longrightarrow> tasks' = tasks @ returned_tasks new) \<and>
     offsets_chain offset (fetches new) \<and>
     offset + length (fetches new) \<le> max offset READ_BATCH_SIZE"

section \<open>Example runs\<close>

text \<open>
  A store with four tags: one created after the watermark 20, with an all-time and a daily
  metric row; one created after it but unlisted; one old but queued, without metric rows;
  one old and not queued. The queue holds an entry for the index \<open>tags\<close> and one for
  another index.
\<close>

definition tag_recent :: Tag where
  "tag_recent =
     \<lparr>tag_id = 1, name = ''anime'', nsfw = False, isCategory = False, unlisted = False,
      adminOnly = False, createdAt = 30, updatedAt = 30,
      metrics =
        [\<lparr>postCount = 1, articleCount = 1, followerCount = 1, modelCount = 1,
          imageCount = 1, hiddenCount = 1, timeframe = Day\<rparr>,
         \<lparr>postCount = 7, articleCount = 2, followerCount = 4, modelCount = 9,
          imageCount = 12, hiddenCount = 0, timeframe = AllTime\<rparr>]\<rparr>"

definition tag_hidden :: Tag where
  "tag_hidden =
     \<lparr>tag_id = 2, name = ''internal'', nsfw = False, isCategory = False, unlisted = True,
      adminOnly = False, createdAt = 40, updatedAt = 40, metrics = []\<rparr>"

definition tag_queued :: Tag where
  "tag_queued =
     \<lparr>tag_id = 3, name = ''style'', nsfw = False, isCategory = True, unlisted = False,
      adminOnly = False, createdAt = 5, updatedAt = 5, metrics = []\<rparr>"

definition tag_old :: Tag where
  "tag_old =
     \<lparr>tag_id = 4, name = ''photo'', nsfw = False, isCategory = False, unlisted = False,
      adminOnly = False, createdAt = 5, updatedAt = 6, metrics = []\<rparr>"

definition demo_db :: Database where
  "demo_db =
     \<lparr>tag = [tag_recent, tag_hidden, tag_queued, tag_old],
      searchIndexUpdateQueue =
        [\<lparr>q_type = ''tags'', q_id = 3\<rparr>, \<lparr>q_type = ''models'', q_id = 4\<rparr>]\<rparr>"

text \<open>The same store after a producer has queued the fourth tag.\<close>

definition demo_db_later :: Database where
  "demo_db_later =
     demo_db\<lparr>searchIndexUpdateQueue :=
       searchIndexUpdateQueue demo_db @ [\<lparr>q_type = ''tags'', q_id = 4\<rparr>]\<rparr>"

text \<open>An engine that accepts every call and numbers its tasks by the position of the call.\<close>

definition demo_client :: MeiliSearch where
  "demo_client =
     \<lparr>updateSearchableAttributes = (\<lambda>k ix attrs. Inr \<lparr>taskUid = k, indexUid = ix\<rparr>),
      updateSortableAttributes = (\<lambda>k ix attrs. Inr \<lparr>taskUid = k, indexUid = ix\<rparr>),
      updateDocuments = (\<lambda>k ix docs. Inr \<lparr>taskUid = k, indexUid = ix\<rparr>),
      waitForTasks = (\<lambda>k uids. Inr ())\<rparr>"

definition demo_world :: world where
  "demo_world = \<lparr>client = Some demo_client, getOrCreateIndex = (\<lambda>k ix. Inr (Some ix))\<rparr>"

text \<open>The fourth tag is queued while the run is under way (from the seventh call on).\<close>

definition demo_ctx :: SearchIndexRunContext where
  "demo_ctx =
     \<lparr>db = (\<lambda>k. Inr (if k < 6 then demo_db else demo_db_later)), lastUpdatedAt = Some 20\<rparr>"

definition demo_setup_trace :: trace where
  "demo_setup_trace =
     [GetOrCreateIndex ''tags'' (Inr (Some ''tags'')),
      UpdateSearchableAttributes ''tags'' [''name''] (Inr \<lparr>taskUid = 1, indexUid = ''tags''\<rparr>),
      UpdateSortableAttributes ''tags'' sortableAttributes
        (Inr \<lparr>taskUid = 2, indexUid = ''tags''\<rparr>),
      WaitForTasks [1, 2] (Inr ())]"

definition demo_loop_trace :: trace where
  "demo_loop_trace =
     [TagFindMany (fetch_args (Some 20) [3] 0)
        (Inr [select_tag AllTime tag_recent, select_tag AllTime tag_queued]),
      UpdateDocuments ''tags''
        [indexReadyRecord (select_tag AllTime tag_recent),
         indexReadyRecord (select_tag AllTime tag_queued)]
        (Inr \<lparr>taskUid = 6, indexUid = ''tags''\<rparr>),
      TagFindMany (fetch_args (Some 20) [3] 2) (Inr [])]"

definition demo_trace :: trace where
  "demo_trace =
     demo_setup_trace @ QueueFindMany ''tags'' (Inr [3]) # demo_loop_trace
       @ [WaitForTasks [6] (Inr ())]"

text \<open>A process without a search engine client.\<close>

definition offline_world :: world where
  "offline_world = \<lparr>client = None, getOrCreateIndex = (\<lambda>k ix. Inr None)\<rparr>"

text \<open>An engine for which \<open>getOrCreateIndex\<close> resolves to no index.\<close>

definition noindex_world :: world where
  "noindex_world = \<lparr>client = Some demo_client, getOrCreateIndex = (\<lambda>k ix. Inr None)\<rparr>"

definition noindex_trace :: trace where
  "noindex_trace =
     [GetOrCreateIndex ''tags'' (Inr None),
      QueueFindMany ''tags'' (Inr [3]),
      TagFindMany (fetch_args (Some 20) [3] 0)
        (Inr [select_tag AllTime tag_recent, select_tag AllTime tag_queued]),
      UpdateDocuments ''tags''
        [indexReadyRecord (select_tag AllTime tag_recent),
         indexReadyRecord (select_tag AllTime tag_queued)]
        (Inr \<lparr>taskUid = 3, indexUid = ''tags''\<rparr>),
      TagFindMany (fetch_args (Some 20) [3] 2) (Inr []),
      WaitForTasks [3] (Inr ())]"

text \<open>An engine that rejects the sortable attributes.\<close>

definition rejecting_world :: world where
  "rejecting_world =
     \<lparr>client = Some (demo_client
        \<lparr>updateSortableAttributes :=
           (\<lambda>k ix attrs. Inl (MeiliSearchError ''invalid_settings_sortable_attributes''))\<rparr>),
      getOrCreateIndex = (\<lambda>k ix. Inr (Some ix))\<rparr>"

definition rejecting_trace :: trace where
  "rejecting_trace =
     [GetOrCreateIndex ''tags'' (Inr (Some ''tags'')),
      UpdateSearchableAttributes ''tags'' [''name''] (Inr \<lparr>taskUid = 1, indexUid = ''tags''\<rparr>),
      UpdateSortableAttributes ''tags'' sortableAttributes
        (Inl (MeiliSearchError ''invalid_settings_sortable_attributes''))]"

text \<open>A store of 101 listed tags, read with no watermark.\<close>

definition numbered_tag :: "nat \<Rightarrow> Tag" where
  "numbered_tag i =
     \<lparr>tag_id = int i, name = ''tag'', nsfw = False, isCategory = False, unlisted = False,
      adminOnly = False, createdAt = 0, updatedAt = 0, metrics = []\<rparr>"

definition crowded_db :: Database where
  "crowded_db = \<lparr>tag = map numbered_tag [0..<101], searchIndexUpdateQueue = []\<rparr>"

definition backfill_ctx :: SearchIndexRunContext where
  "backfill_ctx = \<lparr>db = (\<lambda>k. Inr crowded_db), lastUpdatedAt = None\<rparr>"

definition crowded_loop_trace :: trace where
  "crowded_loop_trace =
     [TagFindMany (fetch_args None [] 0)
        (Inr (map (select_tag AllTime) (map numbered_tag [0..<100]))),
      UpdateDocuments ''tags''
        (map indexReadyRecord (map (select_tag AllTime) (map numbered_tag [0..<100])))
        (Inr \<lparr>taskUid = 6, indexUid = ''tags''\<rparr>)]"

definition crowded_trace :: trace where
  "crowded_trace =
     demo_setup_trace @ QueueFindMany ''tags'' (Inr []) # crowded_loop_trace
       @ [WaitForTasks [6] (Inr ())]"

section \<open>Unfolding the loop\<close>

lemma fetch_loop_exit:
  "\<not> offset < READ_BATCH_SIZE \<Longrightarrow> fetch_loop c ctx q offset tasks tr = Some (Inr tasks, tr)"
  by (subst fetch_loop.simps) simp

lemma fetch_loop_fetch_rejected:
  "offset < READ_BATCH_SIZE \<Longrightarrow>
   tag_findMany (db ctx (length tr)) (fetch_args (lastUpdatedAt ctx) q offset) = Inl e \<Longrightarrow>
   fetch_loop c ctx q offset tasks tr =
     Some (Inl e, tr @ [TagFindMany (fetch_args (lastUpdatedAt ctx) q offset) (Inl e)])"
  by (subst fetch_loop.simps) (simp add: Let_def)

lemma fetch_loop_empty:
  "offset < READ_BATCH_SIZE \<Longrightarrow>
   tag_findMany (db ctx (length tr)) (fetch_args (lastUpdatedAt ctx) q offset) = Inr [] \<Longrightarrow>
   fetch_loop c ctx q offset tasks tr =
     Some (Inr tasks, tr @ [TagFindMany (fetch_args (lastUpdatedAt ctx) q offset) (Inr [])])"
  by (subst fetch_loop.simps) (simp add: Let_def)

lemma fetch_loop_submit_rejected:
  "offset < READ_BATCH_SIZE \<Longrightarrow>
   tag_findMany (db ctx (length tr)) (fetch_args (lastUpdatedAt ctx) q offset) = Inr tags \<Longrightarrow>
   tags \<noteq> [] \<Longrightarrow>
   updateDocuments c (Suc (length tr)) INDEX_NAME (map indexReadyRecord tags) = Inl e \<Longrightarrow>
   fetch_loop c ctx q offset tasks tr =
     Some (Inl e, tr @ [TagFindMany (fetch_args (lastUpdatedAt ctx) q offset) (Inr tags),
                        UpdateDocuments INDEX_NAME (map indexReadyRecord tags) (Inl e)])"
  by (subst fetch_loop.simps) (simp add: Let_def)

lemma fetch_loop_step:
  "offset < READ_BATCH_SIZE \<Longrightarrow>
   tag_findMany (db ctx (length tr)) (fetch_args (lastUpdatedAt ctx) q offset) = Inr tags \<Longrightarrow>
   tags \<noteq> [] \<Longrightarrow>
   updateDocuments c (Suc (length tr)) INDEX_NAME (map indexReadyRecord tags) = Inr task \<Longrightarrow>
   fetch_loop c ctx q offset tasks tr =
     fetch_loop c ctx q (offset + length tags) (tasks @ [task])
       (tr @ [TagFindMany (fetch_args (lastUpdatedAt ctx) q offset) (Inr tags),
              UpdateDocuments INDEX_NAME (map indexReadyRecord tags) (Inr task)])"
  by (subst fetch_loop.simps) (simp add: Let_def)

lemma fetch_loop_cases_induct [case_names exit fetch_rejected empty submit_rejected step]:
  assumes "\<And>offset tasks tr. \<not> offset < READ_BATCH_SIZE \<Longrightarrow> P offset tasks tr"
    and "\<And>offset tasks tr e. offset < READ_BATCH_SIZE \<Longrightarrow>
           tag_findMany (db ctx (length tr)) (fetch_args (lastUpdatedAt ctx) q offset) = Inl e \<Longrightarrow>
           P offset tasks tr"
    and "\<And>offset tasks tr. offset < READ_BATCH_SIZE \<Longrightarrow>
           tag_findMany (db ctx (length tr)) (fetch_args (lastUpdatedAt ctx) q offset) = Inr [] \<Longrightarrow>
           P offset tasks tr"
    and "\<And>offset tasks tr tags e. offset < READ_BATCH_SIZE \<Longrightarrow>
           tag_findMany (db ctx (length tr)) (fetch_args (lastUpdatedAt ctx) q offset) = Inr tags \<Longrightarrow>
           tags \<noteq> [] \<Longrightarrow>
           updateDocuments c (Suc (length tr)) INDEX_NAME (map indexReadyRecord tags) = Inl e \<Longrightarrow>
           P offset tasks tr"
    and "\<And>offset tasks tr tags task. offset < READ_BATCH_SIZE \<Longrightarrow>
           tag_findMany (db ctx (length tr)) (fetch_args (lastUpdatedAt ctx) q offset) = Inr tags \<Longrightarrow>
           tags \<noteq> [] \<Longrightarrow>
           updateDocuments c (Suc (length tr)) INDEX_NAME (map indexReadyRecord tags) = Inr task \<Longrightarrow>
           P (offset + length tags) (tasks @ [task])
             (tr @ [TagFindMany (fetch_args (lastUpdatedAt ctx) q offset) (Inr tags),
                    UpdateDocuments INDEX_NAME (map indexReadyRecord tags) (Inr task)]) \<Longrightarrow>
           P offset tasks tr"
  shows "P offset tasks tr"
proof (induction "READ_BATCH_SIZE - offset" arbitrary: offset tasks tr rule: less_induct)
  case (less offset tasks tr)
  show ?case
  proof (cases "offset < READ_BATCH_SIZE")
    case False
    then show ?thesis by (rule assms(1))
  next
    case guard: True
    show ?thesis
    proof (cases "tag_findMany (db ctx (length tr)) (fetch_args (lastUpdatedAt ctx) q offset)")
      case (Inl e)
      with guard show ?thesis by (rule assms(2))
    next
      case (Inr tags)
      show ?thesis
      proof (cases "tags = []")
        case True
        with guard Inr show ?thesis by (simp add: assms(3))
      next
        case nonempty: False
        show ?thesis
        proof (cases "updateDocuments c (Suc (length tr)) INDEX_NAME (map indexReadyRecord tags)")
          case (Inl e)
          with guard Inr nonempty show ?thesis by (rule assms(4))
        next
          case task: (Inr task)
          from nonempty guard have "READ_BATCH_SIZE - (offset + length tags) < READ_BATCH_SIZE - offset"
            by (cases tags) auto
          then have "P (offset + length tags) (tasks @ [task])
             (tr @ [TagFindMany (fetch_args (lastUpdatedAt ctx) q offset) (Inr tags),
                    UpdateDocuments INDEX_NAME (map indexReadyRecord tags) (Inr task)])"
            by (rule less.hyps)
          with guard Inr nonempty task show ?thesis by (rule assms(5))
        qed
      qed
    qed
  qed
qed

lemma fetch_loop_returns: "\<exists>r. fetch_loop c ctx q offset tasks tr = Some r"
proof (induction offset tasks tr rule: fetch_loop_cases_induct [where c = c and ctx = ctx and q = q])
  case (exit offset tasks tr)
  then show ?case by (simp add: fetch_loop_exit)
next
  case (fetch_rejected offset tasks tr e)
  then show ?case by (simp add: fetch_loop_fetch_rejected)
next
  case (empty offset tasks tr)
  then show ?case by (simp add: fetch_loop_empty)
next
  case (submit_rejected offset tasks tr tags e)
  then show ?case by (simp add: fetch_loop_submit_rejected)
next
  case (step offset tasks tr tags task)
  then show ?case by (simp add: fetch_loop_step)
qed


lemma fetches_simps [simp]:
  "fetches [] = []"
  "fetches (tr @ tr') = fetches tr @ fetches tr'"
  "fetches (e # tr) = (case fetch_of e of None \<Rightarrow> fetches tr | Some x \<Rightarrow> x # fetches tr)"
  by (simp_all add: fetches_def map_filter_def split: option.splits)

lemma submissions_simps [simp]:
  "submissions [] = []"
  "submissions (tr @ tr') = submissions tr @ submissions tr'"
  "submissions (e # tr) =
     (case submit_of e of None \<Rightarrow> submissions tr | Some x \<Rightarrow> x # submissions tr)"
  by (simp_all add: submissions_def map_filter_def split: option.splits)

lemma returned_tasks_simps [simp]:
  "returned_tasks [] = []"
  "returned_tasks (tr @ tr') = returned_tasks tr @ returned_tasks tr'"
  "returned_tasks (e # tr) =
     (case task_of e of None \<Rightarrow> returned_tasks tr | Some x \<Rightarrow> x # returned_tasks tr)"
  by (simp_all add: returned_tasks_def map_filter_def split: option.splits)

lemma queue_reads_simps [simp]:
  "queue_reads [] = []"
  "queue_reads (tr @ tr') = queue_reads tr @ queue_reads tr'"
  "queue_reads (e # tr) =
     (case queue_read_of e of None \<Rightarrow> queue_reads tr | Some x \<Rightarrow> x # queue_reads tr)"
  by (simp_all add: queue_reads_def map_filter_def split: option.splits)

lemma waits_simps [simp]:
  "waits [] = []"
  "waits (tr @ tr') = waits tr @ waits tr'"
  "waits (e # tr) = (case wait_of e of None \<Rightarrow> waits tr | Some x \<Rightarrow> x # waits tr)"
  by (simp_all add: waits_def map_filter_def split: option.splits)

lemma fetches_member: "(a, r) \<in> set (fetches tr) \<longleftrightarrow> TagFindMany a r \<in> set tr"
proof (induction tr)
  case Nil
  show ?case by simp
next
  case (Cons e tr)
  then show ?case by (cases e) auto
qed

lemma submissions_member:
  "(ix, docs, t) \<in> set (submissions tr) \<longleftrightarrow> UpdateDocuments ix docs t \<in> set tr"
proof (induction tr)
  case Nil
  show ?case by simp
next
  case (Cons e tr)
  then show ?case by (cases e) auto
qed

lemma fetch_args_skip [simp]: "skip (fetch_args lu q offset) = offset"
  by (simp add: fetch_args_def)

lemma fetch_loop_post:
  "fetch_loop c ctx q offset tasks tr = Some (res, tr') \<longrightarrow>
     (\<exists>new. tr' = tr @ new \<and> loop_post ctx q offset tasks res new)"
proof (induction offset tasks tr rule: fetch_loop_cases_induct [where c = c and ctx = ctx and q = q])
  case (exit offset tasks tr)
  then show ?case by (auto simp add: fetch_loop_exit loop_post_def)
next
  case (fetch_rejected offset tasks tr e)
  then show ?case
    by (auto simp add: fetch_loop_fetch_rejected loop_post_def)
next
  case (empty offset tasks tr)
  then show ?case
    by (auto simp add: fetch_loop_empty loop_post_def)
next
  case (submit_rejected offset tasks tr tags e)
  then show ?case
    by (auto simp add: fetch_loop_submit_rejected loop_post_def)
next
  case (step offset tasks tr tags task)
  let ?f = "TagFindMany (fetch_args (lastUpdatedAt ctx) q offset) (Inr tags)"
  let ?s = "UpdateDocuments INDEX_NAME (map indexReadyRecord tags) (Inr task)"
  show ?case
  proof
    assume "fetch_loop c ctx q offset tasks tr = Some (res, tr')"
    with step have "fetch_loop c ctx q (offset + length tags) (tasks @ [task]) (tr @ [?f, ?s]) = Some (res, tr')"
      by (simp add: fetch_loop_step)
    with step.IH obtain new where new: "tr' = (tr @ [?f, ?s]) @ new"
      and post: "loop_post ctx q (offset + length tags) (tasks @ [task]) res new"
      by blast
    from step.hyps have len: "0 < length tags" by simp
    have p1: "\<forall>e\<in>set (?f # ?s # new). fetch_of e \<noteq> None \<or> submit_of e \<noteq> None"
      using post by (simp add: loop_post_def)
    have p2: "\<forall>a r. TagFindMany a r \<in> set (?f # ?s # new) \<longrightarrow>
        a = fetch_args (lastUpdatedAt ctx) q (skip a) \<and> (\<exists>k. tag_findMany (db ctx k) a = r)"
      using post step.hyps(2) by (auto simp add: loop_post_def)
    have p3: "\<forall>ix docs t. UpdateDocuments ix docs t \<in> set (?f # ?s # new) \<longrightarrow>
        ix = INDEX_NAME \<and>
        (\<exists>a page. TagFindMany a (Inr page) \<in> set (?f # ?s # new) \<and> docs = map indexReadyRecord page)"
    proof (intro allI impI)
      fix ix docs t
      assume "UpdateDocuments ix docs t \<in> set (?f # ?s # new)"
      then consider "ix = INDEX_NAME" "docs = map indexReadyRecord tags"
        | "UpdateDocuments ix docs t \<in> set new"
        by auto
      then show "ix = INDEX_NAME \<and>
        (\<exists>a page. TagFindMany a (Inr page) \<in> set (?f # ?s # new) \<and> docs = map indexReadyRecord page)"
      proof cases
        case 1
        then show ?thesis by auto
      next
        case 2
        with post have "ix = INDEX_NAME \<and>
          (\<exists>a page. TagFindMany a (Inr page) \<in> set new \<and> docs = map indexReadyRecord page)"
          unfolding loop_post_def by blast
        then show ?thesis by auto
      qed
    qed
    have p4: "\<forall>tasks'. res = Inr tasks' \<longrightarrow> tasks' = tasks @ returned_tasks (?f # ?s # new)"
      using post by (simp add: loop_post_def)
    have p5: "offsets_chain offset (fetches (?f # ?s # new))"
      using post step.hyps(1,3) by (simp add: loop_post_def)
    have p6: "offset + length (fetches (?f # ?s # new)) \<le> max offset READ_BATCH_SIZE"
    proof -
      have eq: "length (fetches (?f # ?s # new)) = Suc (length (fetches new))"
        by simp
      from post have "offset + length tags + length (fetches new)
          \<le> max (offset + length tags) READ_BATCH_SIZE"
        by (simp add: loop_post_def)
      with len step.hyps(1) show ?thesis
        unfolding eq by arith
    qed
    have "loop_post ctx q offset tasks res (?f # ?s # new)"
      unfolding loop_post_def using p1 p2 p3 p4 p5 p6 by blast
    with new show "\<exists>new. tr' = tr @ new \<and> loop_post ctx q offset tasks res new"
      by auto
  qed
qed



lemma fetch_loop_run:
  "fetch_loop c ctx q offset tasks tr = Some (res, tr') \<longrightarrow>
     (\<exists>new. tr' = tr @ new \<and> loop_run offset new)"
proof (induction offset tasks tr rule: fetch_loop_cases_induct [where c = c and ctx = ctx and q = q])
  case (exit offset tasks tr)
  then show ?case by (auto simp add: fetch_loop_exit)
next
  case (fetch_rejected offset tasks tr e)
  then show ?case by (auto simp add: fetch_loop_fetch_rejected)
next
  case (empty offset tasks tr)
  then show ?case by (auto simp add: fetch_loop_empty)
next
  case (submit_rejected offset tasks tr tags e)
  then show ?case by (auto simp add: fetch_loop_submit_rejected)
next
  case (step offset tasks tr tags task)
  let ?f = "TagFindMany (fetch_args (lastUpdatedAt ctx) q offset) (Inr tags)"
  let ?s = "UpdateDocuments INDEX_NAME (map indexReadyRecord tags) (Inr task)"
  show ?case
  proof
    assume "fetch_loop c ctx q offset tasks tr = Some (res, tr')"
    with step have "fetch_loop c ctx q (offset + length tags) (tasks @ [task]) (tr @ [?f, ?s])
        = Some (res, tr')"
      by (simp add: fetch_loop_step)
    with step.IH obtain new where new: "tr' = (tr @ [?f, ?s]) @ new"
      and run: "loop_run (offset + length tags) new"
      by blast
    from run step.hyps(1,3) have "loop_run offset (?f # ?s # new)"
      by simp
    with new show "\<exists>new. tr' = tr @ new \<and> loop_run offset new"
      by auto
  qed
qed

lemma loop_events_simps [simp]:
  "loop_events [] = []"
  "loop_events (tr @ tr') = loop_events tr @ loop_events tr'"
  "loop_events (e # tr) =
     (if fetch_of e \<noteq> None \<or> submit_of e \<noteq> None then e # loop_events tr else loop_events tr)"
  by (simp_all add: loop_events_def)

lemma loop_events_none:
  assumes "fetches tr = []" and "submissions tr = []"
  shows "loop_events tr = []"
  using assms
proof (induction tr)
  case Nil
  show ?case by simp
next
  case (Cons e tr)
  then show ?case by (cases e) (auto split: option.splits)
qed

lemma loop_events_all:
  assumes "\<forall>e\<in>set new. fetch_of e \<noteq> None \<or> submit_of e \<noteq> None"
  shows "loop_events new = new"
  using assms by (simp add: loop_events_def)

text \<open>Events of the loop are neither reads of the queue nor waits.\<close>

lemma loop_events_other:
  assumes "\<forall>e\<in>set new. fetch_of e \<noteq> None \<or> submit_of e \<noteq> None"
  shows "queue_reads new = []" and "waits new = []"
  using assms
proof (induction new)
  case Nil
  { case 1 show ?case by simp }
  { case 2 show ?case by simp }
next
  case (Cons e new)
  { case 1 with Cons.IH(1) show ?case by (cases e) auto }
  { case 2 with Cons.IH(2) show ?case by (cases e) auto }
qed

lemma onIndexSetup_events:
  assumes "onIndexSetup w tr = (r, tr')"
  shows "\<exists>new. tr' = tr @ new \<and> fetches new = [] \<and> submissions new = [] \<and>
           queue_reads new = [] \<and> returned_tasks new = []"
  using assms unfolding onIndexSetup_def
  by (auto simp add: Let_def split: option.splits sum.splits)

lemma onIndexSetup_nil_events:
  assumes "onIndexSetup w [] = (r, tr0)"
  shows "fetches tr0 = []" "submissions tr0 = []" "queue_reads tr0 = []" "returned_tasks tr0 = []"
  using onIndexSetup_events [OF assms] by auto

text \<open>The four ways a run with a client goes.\<close>

lemma onIndexUpdate_cases [consumes 1, case_names setup_rejected queue_rejected loop_failed waited]:
  assumes c: "client w = Some c"
  obtains
    (setup_rejected) e tr0 where
      "onIndexSetup w [] = (Inl e, tr0)"
      "onIndexUpdate w ctx = Some (Inl e, tr0)"
  | (queue_rejected) e tr0 where
      "onIndexSetup w [] = (Inr (), tr0)"
      "queue_findMany (db ctx (length tr0)) INDEX_NAME = Inl e"
      "onIndexUpdate w ctx = Some (Inl e, tr0 @ [QueueFindMany INDEX_NAME (Inl e)])"
  | (loop_failed) e tr0 q new where
      "onIndexSetup w [] = (Inr (), tr0)"
      "queue_findMany (db ctx (length tr0)) INDEX_NAME = Inr q"
      "loop_post ctx q 0 [] (Inl e) new"
      "onIndexUpdate w ctx = Some (Inl e, tr0 @ QueueFindMany INDEX_NAME (Inr q) # new)"
      "loop_run 0 new"
  | (waited) tr0 q new r where
      "onIndexSetup w [] = (Inr (), tr0)"
      "queue_findMany (db ctx (length tr0)) INDEX_NAME = Inr q"
      "loop_post ctx q 0 [] (Inr (returned_tasks new)) new"
      "r = waitForTasks c (length (tr0 @ QueueFindMany INDEX_NAME (Inr q) # new))
             (map taskUid (returned_tasks new))"
      "onIndexUpdate w ctx =
         Some (r, tr0 @ QueueFindMany INDEX_NAME (Inr q) # new
                  @ [WaitForTasks (map taskUid (returned_tasks new)) r])"
      "loop_run 0 new"
proof -
  obtain s tr0 where su: "onIndexSetup w [] = (s, tr0)"
    by (cases "onIndexSetup w []")
  show thesis
  proof (cases s)
    case (Inl e)
    with su c have "onIndexUpdate w ctx = Some (Inl e, tr0)"
      by (simp add: onIndexUpdate_def)
    with su Inl show thesis by (auto intro: setup_rejected)
  next
    case (Inr u)
    with su have su': "onIndexSetup w [] = (Inr (), tr0)" by simp
    show thesis
    proof (cases "queue_findMany (db ctx (length tr0)) INDEX_NAME")
      case (Inl e)
      with su' c have "onIndexUpdate w ctx = Some (Inl e, tr0 @ [QueueFindMany INDEX_NAME (Inl e)])"
        by (simp add: onIndexUpdate_def Let_def)
      with su' Inl show thesis by (rule queue_rejected)
    next
      case q: (Inr q)
      let ?tr1 = "tr0 @ [QueueFindMany INDEX_NAME (Inr q)]"
      obtain res tr2 where loop: "fetch_loop c ctx q 0 [] ?tr1 = Some (res, tr2)"
        using fetch_loop_returns [of c ctx q 0 "[]" ?tr1] by auto
      with fetch_loop_post [of c ctx q 0 "[]" ?tr1 res tr2]
      obtain new where new: "tr2 = ?tr1 @ new" and post: "loop_post ctx q 0 [] res new"
        by auto
      from loop new fetch_loop_run [of c ctx q 0 "[]" ?tr1 res tr2]
      have lr: "loop_run 0 new"
        by auto
      show thesis
      proof (cases res)
        case (Inl e)
        with su' c q loop new
        have "onIndexUpdate w ctx = Some (Inl e, tr0 @ QueueFindMany INDEX_NAME (Inr q) # new)"
          by (simp add: onIndexUpdate_def Let_def)
        with su' q post Inl lr show thesis by (auto intro: loop_failed)
      next
        case (Inr tasks)
        with post have tasks: "tasks = returned_tasks new"
          by (simp add: loop_post_def)
        with su' c q loop new Inr
        have "onIndexUpdate w ctx =
          Some (waitForTasks c (length (tr0 @ QueueFindMany INDEX_NAME (Inr q) # new))
                  (map taskUid (returned_tasks new)),
                tr0 @ QueueFindMany INDEX_NAME (Inr q) # new
                  @ [WaitForTasks (map taskUid (returned_tasks new))
                       (waitForTasks c (length (tr0 @ QueueFindMany INDEX_NAME (Inr q) # new))
                          (map taskUid (returned_tasks new)))])"
          by (simp add: onIndexUpdate_def Let_def)
        with su' q post Inr tasks lr show thesis by (auto intro: waited)
      qed
    qed
  qed
qed

section \<open>The shape of a run\<close>

lemma run_without_client:
  assumes "client w = None"
  shows "onIndexUpdate w ctx = Some (Inr (), [])"
  using assms by (simp add: onIndexUpdate_def)

text \<open>Where a fetch of a run comes from.\<close>

lemma run_fetch:
  assumes run: "onIndexUpdate w ctx = Some (res, tr)"
    and f: "(a, r) \<in> set (fetches tr)"
  obtains c tr0 q post where
    "client w = Some c"
    "onIndexSetup w [] = (Inr (), tr0)"
    "queue_findMany (db ctx (length tr0)) INDEX_NAME = Inr q"
    "tr = tr0 @ QueueFindMany INDEX_NAME (Inr q) # post"
    "queue_reads post = []"
    "(a, r) \<in> set (fetches post)"
    "a = fetch_args (lastUpdatedAt ctx) q (skip a)"
    "\<exists>k. tag_findMany (db ctx k) a = r"
proof (cases "client w")
  case None
  with run f show thesis by (auto simp add: run_without_client)
next
  case (Some c)
  then show thesis
  proof (cases rule: onIndexUpdate_cases [where ctx = ctx])
    case (setup_rejected e tr0)
    with run f show thesis by (auto simp add: onIndexSetup_nil_events)
  next
    case (queue_rejected e tr0)
    with run f show thesis by (auto simp add: onIndexSetup_nil_events)
  next
    case (loop_failed e tr0 q new)
    from loop_failed(3) have other: "queue_reads new = []"
      by (simp add: loop_post_def loop_events_other)
    from run f loop_failed(1,4) have mem: "(a, r) \<in> set (fetches new)"
      by (auto simp add: onIndexSetup_nil_events)
    with loop_failed(3) have "a = fetch_args (lastUpdatedAt ctx) q (skip a)"
      and "\<exists>k. tag_findMany (db ctx k) a = r"
      by (simp_all add: loop_post_def fetches_member)
    with Some loop_failed run other mem show thesis by (auto intro: that)
  next
    case (waited tr0 q new r')
    from waited(3) have other: "queue_reads new = []"
      by (simp add: loop_post_def loop_events_other)
    from run f waited(1,5) have mem: "(a, r) \<in> set (fetches new)"
      by (auto simp add: onIndexSetup_nil_events)
    with waited(3) have "a = fetch_args (lastUpdatedAt ctx) q (skip a)"
      and "\<exists>k. tag_findMany (db ctx k) a = r"
      by (simp_all add: loop_post_def fetches_member)
    moreover from other have "queue_reads (new @ [WaitForTasks (map taskUid (returned_tasks new)) r']) = []"
      by simp
    moreover from mem have "(a, r) \<in> set (fetches (new @ [WaitForTasks (map taskUid (returned_tasks new)) r']))"
      by simp
    ultimately show thesis
      using Some waited(1,2,5) run
      by (auto intro: that [where post = "new @ [WaitForTasks (map taskUid (returned_tasks new)) r']"])
  qed
qed

text \<open>Where a submission of a run comes from.\<close>

lemma run_submission:
  assumes run: "onIndexUpdate w ctx = Some (res, tr)"
    and s: "(ix, docs, t) \<in> set (submissions tr)"
  shows "ix = INDEX_NAME \<and>
    (\<exists>a page. (a, Inr page) \<in> set (fetches tr) \<and> docs = map indexReadyRecord page)"
proof (cases "client w")
  case None
  with run s show ?thesis by (auto simp add: run_without_client)
next
  case (Some c)
  then show ?thesis
  proof (cases rule: onIndexUpdate_cases [where ctx = ctx])
    case (setup_rejected e tr0)
    with run s show ?thesis by (auto simp add: onIndexSetup_nil_events)
  next
    case (queue_rejected e tr0)
    with run s show ?thesis by (auto simp add: onIndexSetup_nil_events)
  next
    case (loop_failed e tr0 q new)
    from run s loop_failed(1,4) have "(ix, docs, t) \<in> set (submissions new)"
      by (auto simp add: onIndexSetup_nil_events)
    then have "UpdateDocuments ix docs t \<in> set new"
      by (simp add: submissions_member)
    with loop_failed(3) have "ix = INDEX_NAME \<and>
        (\<exists>a page. TagFindMany a (Inr page) \<in> set new \<and> docs = map indexReadyRecord page)"
      unfolding loop_post_def by blast
    then obtain a page where ix: "ix = INDEX_NAME"
      and ap: "TagFindMany a (Inr page) \<in> set new"
      and docs: "docs = map indexReadyRecord page"
      by blast
    from ap run loop_failed(4) have "(a, Inr page) \<in> set (fetches tr)"
      by (auto simp add: fetches_member)
    with ix docs show ?thesis by blast
  next
    case (waited tr0 q new r')
    from run s waited(1,5) have "(ix, docs, t) \<in> set (submissions new)"
      by (auto simp add: onIndexSetup_nil_events)
    then have "UpdateDocuments ix docs t \<in> set new"
      by (simp add: submissions_member)
    with waited(3) have "ix = INDEX_NAME \<and>
        (\<exists>a page. TagFindMany a (Inr page) \<in> set new \<and> docs = map indexReadyRecord page)"
      unfolding loop_post_def by blast
    then obtain a page where ix: "ix = INDEX_NAME"
      and ap: "TagFindMany a (Inr page) \<in> set new"
      and docs: "docs = map indexReadyRecord page"
      by blast
    from ap run waited(5) have "(a, Inr page) \<in> set (fetches tr)"
      by (auto simp add: fetches_member)
    with ix docs show ?thesis by blast
  qed
qed

text \<open>The records of a page are selected rows of the store that satisfy the query.\<close>

lemma tag_findMany_member:
  assumes "tag_findMany d a = Inr page" and "record \<in> set page"
  shows "\<exists>dbs t. d = Inr dbs \<and> t \<in> set (tag dbs) \<and> where_holds (tag_where a) t \<and>
           record = select_tag (metrics_where a) t"
proof (cases d)
  case (Inl e)
  with assms show ?thesis by (simp add: tag_findMany_def)
next
  case (Inr dbs)
  with assms have "record \<in> set (take (take_n a) (drop (skip a)
                 (map (select_tag (metrics_where a))
                    (filter (where_holds (tag_where a)) (tag dbs)))))"
    by (auto simp add: tag_findMany_def)
  then have "record \<in> set (map (select_tag (metrics_where a))
                    (filter (where_holds (tag_where a)) (tag dbs)))"
    by (blast dest: in_set_takeD in_set_dropD)
  with Inr show ?thesis by auto
qed

lemma where_holds_tag_query:
  "where_holds (tag_query lu q) t \<longleftrightarrow>
     \<not> unlisted t \<and> \<not> adminOnly t \<and>
     (case lu of None \<Rightarrow> True
      | Some wm \<Rightarrow> wm < createdAt t \<or> wm < updatedAt t \<or> tag_id t \<in> set q)"
  by (cases lu) (auto simp add: where_holds_def tag_query_def)

lemma fetch_args_fields [simp]:
  "tag_where (fetch_args lu q offset) = tag_query lu q"
  "metrics_where (fetch_args lu q offset) = AllTime"
  "take_n (fetch_args lu q offset) = READ_BATCH_SIZE"
  by (simp_all add: fetch_args_def)

text \<open>Every record a run fetched, and every document it submitted, is that of a listed
  row of the store.\<close>

lemma run_record:
  assumes run: "onIndexUpdate w ctx = Some (res, tr)"
    and f: "(a, Inr page) \<in> set (fetches tr)"
    and r: "row \<in> set page"
  shows "\<exists>k d t. db ctx k = Inr d \<and> t \<in> set (tag d) \<and>
           unlisted t = False \<and> adminOnly t = False \<and> row = select_tag AllTime t"
  using run f
proof (cases rule: run_fetch)
  case (1 c tr0 q post)
  from 1(8) obtain k where "tag_findMany (db ctx k) a = Inr page"
    by blast
  from tag_findMany_member [OF this r]
  obtain dbs t where d: "db ctx k = Inr dbs" and t: "t \<in> set (tag dbs)"
    and wh: "where_holds (tag_where a) t"
    and sel: "row = select_tag (metrics_where a) t"
    by blast
  from 1(7) have "tag_where a = tag_query (lastUpdatedAt ctx) q"
    and "metrics_where a = AllTime"
    by (metis fetch_args_fields(1), metis fetch_args_fields(2))
  with wh sel have "unlisted t = False \<and> adminOnly t = False \<and> row = select_tag AllTime t"
    by (simp add: where_holds_tag_query)
  with d t show ?thesis by blast
qed

lemma run_document:
  assumes run: "onIndexUpdate w ctx = Some (res, tr)"
    and s: "(ix, docs, task) \<in> set (submissions tr)"
    and d: "doc \<in> set docs"
  shows "\<exists>k d t. db ctx k = Inr d \<and> t \<in> set (tag d) \<and>
           unlisted t = False \<and> adminOnly t = False \<and>
           doc = indexReadyRecord (select_tag AllTime t)"
proof -
  from run_submission [OF run s]
  obtain a pg where f: "(a, Inr pg) \<in> set (fetches tr)"
    and docs: "docs = map indexReadyRecord pg"
    by blast
  from d docs obtain row where r: "row \<in> set pg" and "doc = indexReadyRecord row"
    by auto
  with run_record [OF run f r] show ?thesis by blast
qed

text \<open>The document of a row of the store.\<close>

lemma document_of_tag:
  "indexReadyRecord (select_tag AllTime t) =
     \<lparr>d_id = tag_id t, d_name = name t, d_nsfw = nsfw t, d_isCategory = isCategory t,
      d_metrics =
        (case filter (\<lambda>m. timeframe m = AllTime) (metrics t) of
           [] \<Rightarrow> []
         | m # ms \<Rightarrow>
            [(''postCount'', postCount m), (''articleCount'', articleCount m),
             (''followerCount'', followerCount m), (''modelCount'', modelCount m),
             (''imageCount'', imageCount m), (''hiddenCount'', hiddenCount m)])\<rparr>"
  by (cases "filter (\<lambda>m. timeframe m = AllTime) (metrics t)")
    (simp_all add: indexReadyRecord_def select_tag_def metric_object_def select_metric_def)

text \<open>Without a watermark the query of a fetch has no \<open>OR\<close>: it holds of the listed rows.\<close>

lemma query_without_watermark:
  assumes "onIndexUpdate w ctx = Some (res, tr)"
    and "lastUpdatedAt ctx = None"
    and "(a, r) \<in> set (fetches tr)"
  shows "w_OR (tag_where a) = None \<and>
         (\<forall>t. where_holds (tag_where a) t \<longleftrightarrow> \<not> unlisted t \<and> \<not> adminOnly t) \<and>
         (\<exists>k. tag_findMany (db ctx k) a = r)"
  using assms(1,3)
proof (cases rule: run_fetch)
  case (1 c tr0 q post)
  from 1(7) have wh: "tag_where a = tag_query None q"
    using assms(2) by (metis fetch_args_fields(1))
  then have "w_OR (tag_where a) = None"
    by (simp add: tag_query_def)
  moreover from wh have "\<forall>t. where_holds (tag_where a) t \<longleftrightarrow> \<not> unlisted t \<and> \<not> adminOnly t"
    by (simp add: where_holds_tag_query)
  ultimately show ?thesis using 1(8) by blast
qed

lemma returned_tasks_member:
  "(ix, docs, Inr t) \<in> set (submissions tr) \<Longrightarrow> t \<in> set (returned_tasks tr)"
proof (induction tr)
  case Nil
  then show ?case by simp
next
  case (Cons e tr)
  then show ?case
  proof (cases e)
    case (UpdateDocuments ix' docs' t')
    with Cons show ?thesis by (cases t') auto
  qed auto
qed

section \<open>The example run, evaluated\<close>

lemma demo_setup: "onIndexSetup demo_world [] = (Inr (), demo_setup_trace)"
  by (simp add: onIndexSetup_def demo_world_def demo_client_def demo_setup_trace_def
      INDEX_NAME_def Let_def)

lemma demo_queue:
  "queue_findMany (db demo_ctx (length demo_setup_trace)) INDEX_NAME = Inr [3]"
  by (simp add: queue_findMany_def demo_ctx_def demo_setup_trace_def demo_db_def INDEX_NAME_def)

lemma demo_loop:
  "fetch_loop demo_client demo_ctx [3] 0 []
     (demo_setup_trace @ [QueueFindMany INDEX_NAME (Inr [3])]) =
   Some (Inr [\<lparr>taskUid = 6, indexUid = ''tags''\<rparr>],
         demo_setup_trace @ QueueFindMany ''tags'' (Inr [3]) # demo_loop_trace)"
  by (simp add: demo_ctx_def demo_client_def
      demo_setup_trace_def demo_loop_trace_def demo_db_def demo_db_later_def
      tag_findMany_def fetch_args_def tag_query_def where_holds_def
      tag_recent_def tag_hidden_def tag_queued_def tag_old_def
      fetch_loop.simps READ_BATCH_SIZE_def INDEX_NAME_def Let_def)

lemma demo_run: "onIndexUpdate demo_world demo_ctx = Some (Inr (), demo_trace)"
  by (simp add: onIndexUpdate_def demo_setup demo_queue demo_loop demo_trace_def
      demo_world_def [THEN arg_cong [where f = client]] Let_def)
      (simp add: demo_client_def)

lemma rejecting_setup:
  "onIndexSetup rejecting_world [] =
     (Inl (MeiliSearchError ''invalid_settings_sortable_attributes''), rejecting_trace)"
  by (simp add: onIndexSetup_def rejecting_world_def demo_client_def rejecting_trace_def
      INDEX_NAME_def Let_def)

lemma noindex_loop:
  "fetch_loop demo_client demo_ctx [3] 0 []
     [GetOrCreateIndex INDEX_NAME (Inr None), QueueFindMany INDEX_NAME (Inr [3])] =
   Some (Inr [\<lparr>taskUid = 3, indexUid = ''tags''\<rparr>], butlast noindex_trace)"
  by (simp add: demo_ctx_def demo_client_def noindex_trace_def demo_db_def demo_db_later_def
      tag_findMany_def fetch_args_def tag_query_def where_holds_def
      tag_recent_def tag_hidden_def tag_queued_def tag_old_def
      fetch_loop.simps READ_BATCH_SIZE_def INDEX_NAME_def Let_def)

lemma noindex_run: "onIndexUpdate noindex_world demo_ctx = Some (Inr (), noindex_trace)"
proof -
  have "onIndexSetup noindex_world [] = (Inr (), [GetOrCreateIndex INDEX_NAME (Inr None)])"
    by (simp add: onIndexSetup_def noindex_world_def Let_def)
  moreover have "queue_findMany (db demo_ctx (Suc 0)) INDEX_NAME = Inr [3]"
    by (simp add: queue_findMany_def demo_ctx_def demo_db_def INDEX_NAME_def)
  moreover have "client noindex_world = Some demo_client"
    by (simp add: noindex_world_def)
  moreover have "waitForTasks demo_client k uids = Inr ()" for k uids
    by (simp add: demo_client_def)
  ultimately show ?thesis
    by (simp add: onIndexUpdate_def noindex_loop Let_def)
      (simp add: noindex_trace_def INDEX_NAME_def)
qed

lemma crowded_first_page:
  "tag_findMany (db backfill_ctx k) (fetch_args None [] 0) =
     Inr (map (select_tag AllTime) (map numbered_tag [0..<100]))"
proof -
  have "filter (where_holds (tag_query None [])) (map numbered_tag [0..<101]) =
      map numbered_tag [0..<101]"
    by (rule filter_True) (auto simp add: where_holds_def tag_query_def numbered_tag_def)
  moreover have "take 100 [0..<101] = [0..<100]"
    by (simp add: take_upt)
  ultimately show ?thesis
    by (simp add: tag_findMany_def backfill_ctx_def crowded_db_def fetch_args_def
        READ_BATCH_SIZE_def take_map)
qed

lemma crowded_second_page:
  "tag_findMany (db backfill_ctx k) (fetch_args None [] 100) =
     Inr [select_tag AllTime (numbered_tag 100)]"
proof -
  have "filter (where_holds (tag_query None [])) (map numbered_tag [0..<101]) =
      map numbered_tag [0..<101]"
    by (rule filter_True) (auto simp add: where_holds_def tag_query_def numbered_tag_def)
  moreover have "drop 100 [0..<101] = [100]"
    by (simp add: drop_upt upt_rec)
  ultimately show ?thesis
    by (simp add: tag_findMany_def backfill_ctx_def crowded_db_def fetch_args_def
        READ_BATCH_SIZE_def drop_map)
qed

lemma crowded_loop:
  "fetch_loop demo_client backfill_ctx [] 0 []
     (demo_setup_trace @ [QueueFindMany INDEX_NAME (Inr [])]) =
   Some (Inr [\<lparr>taskUid = 6, indexUid = ''tags''\<rparr>],
         demo_setup_trace @ QueueFindMany ''tags'' (Inr []) # crowded_loop_trace)"
proof -
  let ?tr = "demo_setup_trace @ [QueueFindMany INDEX_NAME (Inr [])]"
  let ?tags = "map (select_tag AllTime) (map numbered_tag [0..<100])"
  have guard: "0 < READ_BATCH_SIZE"
    by (simp add: READ_BATCH_SIZE_def)
  have page: "tag_findMany (db backfill_ctx (length ?tr))
      (fetch_args (lastUpdatedAt backfill_ctx) [] 0) = Inr ?tags"
    using crowded_first_page by (simp add: backfill_ctx_def)
  have nonempty: "?tags \<noteq> []"
    by simp
  have task: "updateDocuments demo_client (Suc (length ?tr)) INDEX_NAME
      (map indexReadyRecord ?tags) = Inr \<lparr>taskUid = 6, indexUid = ''tags''\<rparr>"
    by (simp add: demo_client_def demo_setup_trace_def INDEX_NAME_def)
  have "\<not> 0 + length ?tags < READ_BATCH_SIZE"
    by (simp add: READ_BATCH_SIZE_def)
  then show ?thesis
    unfolding fetch_loop_step [OF guard page nonempty task]
    by (simp add: fetch_loop_exit crowded_loop_trace_def INDEX_NAME_def backfill_ctx_def)
qed

lemma crowded_run: "onIndexUpdate demo_world backfill_ctx = Some (Inr (), crowded_trace)"
proof -
  have "queue_findMany (db backfill_ctx (length demo_setup_trace)) INDEX_NAME = Inr []"
    by (simp add: queue_findMany_def backfill_ctx_def crowded_db_def)
  moreover have "client demo_world = Some demo_client"
    by (simp add: demo_world_def)
  moreover have "waitForTasks demo_client k uids = Inr ()" for k uids
    by (simp add: demo_client_def)
  ultimately show ?thesis
    by (simp add: onIndexUpdate_def demo_setup crowded_loop Let_def)
      (simp add: crowded_trace_def INDEX_NAME_def)
qed

lemma crowded_fetched_ids: "map r_id (fetched crowded_trace) = map int [0..<100]"
  by (simp add: fetched_def crowded_trace_def crowded_loop_trace_def demo_setup_trace_def
      select_tag_def numbered_tag_def o_def)

lemma crowded_submitted_ids:
  "concat (map (map d_id \<circ> fst \<circ> snd) (submissions crowded_trace)) = map int [0..<100]"
  by (simp add: crowded_trace_def crowded_loop_trace_def demo_setup_trace_def
      indexReadyRecord_def select_tag_def numbered_tag_def o_def)

section \<open>The claims\<close>

text \<open>
  C1. The claim is that the fetch loop ends only on a page with no record, with no bound
  on the offset that could stop it while pages with records remain; the comment on the
  loop in the source asks for the same (the limit is to be removed, the fetch is to go on
  until the break). The code does otherwise. The store holds 101 listed tags and there is
  no watermark: the run fetches one page, of 100 records, at offset 0, and ends normally.
  The loop stops on its bound \<open>offset < READ_BATCH_SIZE\<close>, not on an empty page, and the
  page at offset 100, which holds the last tag, is never asked for.
\<close>

theorem cap_stops_loop_before_empty_page:
  "onIndexUpdate demo_world backfill_ctx = Some (Inr (), crowded_trace) \<and>
   length (filter (where_holds (tag_query None [])) (tag crowded_db)) = 101 \<and>
   map (skip \<circ> fst) (fetches crowded_trace) = [0] \<and>
   map (length \<circ> page_of) (fetches crowded_trace) = [100] \<and>
   tag_findMany (db backfill_ctx 8) (fetch_args None [] 100) =
     Inr [select_tag AllTime (numbered_tag 100)]"
proof -
  have "filter (where_holds (tag_query None [])) (map numbered_tag [0..<101]) =
      map numbered_tag [0..<101]"
    by (rule filter_True) (auto simp add: where_holds_def tag_query_def numbered_tag_def)
  then have "length (filter (where_holds (tag_query None [])) (tag crowded_db)) = 101"
    by (simp add: crowded_db_def)
  moreover have "map (skip \<circ> fst) (fetches crowded_trace) = [0]"
    and "map (length \<circ> page_of) (fetches crowded_trace) = [100]"
    by (simp_all add: crowded_trace_def crowded_loop_trace_def demo_setup_trace_def)
  ultimately show ?thesis
    using crowded_run crowded_second_page by simp
qed

text \<open>
  C2, as amended. With a watermark, every page fetch of a run asks for the rows that are
  neither unlisted nor admin-only and that were created after the watermark, or updated
  after it, or whose id is among those of the queue entries for the index, read once
  before the first fetch; its answer is a page of the rows of the store that satisfy this.
\<close>

theorem fetch_selects_changed_listed:
  assumes "onIndexUpdate w ctx = Some (res, tr)"
    and "lastUpdatedAt ctx = Some wm"
    and "(a, r) \<in> set (fetches tr)"
  shows "\<exists>q. queue_reads tr = [(INDEX_NAME, Inr q)] \<and>
           (\<exists>k d. db ctx k = Inr d \<and>
              q = map q_id (filter (\<lambda>x. q_type x = INDEX_NAME) (searchIndexUpdateQueue d))) \<and>
           (\<forall>t. where_holds (tag_where a) t \<longleftrightarrow>
              \<not> unlisted t \<and> \<not> adminOnly t \<and>
              (wm < createdAt t \<or> wm < updatedAt t \<or> tag_id t \<in> set q)) \<and>
           (\<exists>k. tag_findMany (db ctx k) a = r)"
  using assms(1,3)
proof (cases rule: run_fetch)
  case (1 c tr0 q post)
  from 1(2,4,5) have "queue_reads tr = [(INDEX_NAME, Inr q)]"
    by (simp add: onIndexSetup_nil_events)
  moreover from 1(3) have "\<exists>k d. db ctx k = Inr d \<and>
      q = map q_id (filter (\<lambda>x. q_type x = INDEX_NAME) (searchIndexUpdateQueue d))"
    by (cases "db ctx (length tr0)") (auto simp add: queue_findMany_def)
  moreover from 1(7) have "tag_where a = tag_query (Some wm) q"
    using assms(2) by (metis fetch_args_fields(1))
  then have "\<forall>t. where_holds (tag_where a) t \<longleftrightarrow>
              \<not> unlisted t \<and> \<not> adminOnly t \<and>
              (wm < createdAt t \<or> wm < updatedAt t \<or> tag_id t \<in> set q)"
    by (simp add: where_holds_tag_query)
  ultimately show ?thesis using 1(8) by blast
qed

theorem fetch_selects_changed_listed_witness:
  "onIndexUpdate demo_world demo_ctx = Some (Inr (), demo_trace) \<and>
   lastUpdatedAt demo_ctx = Some 20 \<and>
   (fetch_args (Some 20) [3] 0,
      Inr [select_tag AllTime tag_recent, select_tag AllTime tag_queued])
     \<in> set (fetches demo_trace) \<and>
   queue_reads demo_trace = [(INDEX_NAME, Inr [3])] \<and>
   where_holds (tag_where (fetch_args (Some 20) [3] 0)) tag_recent \<and>
   where_holds (tag_where (fetch_args (Some 20) [3] 0)) tag_queued \<and>
   \<not> where_holds (tag_where (fetch_args (Some 20) [3] 0)) tag_hidden \<and>
   \<not> where_holds (tag_where (fetch_args (Some 20) [3] 0)) tag_old"
proof -
  have wm: "lastUpdatedAt demo_ctx = Some 20"
    by (simp add: demo_ctx_def)
  have f: "(fetch_args (Some 20) [3] 0,
      Inr [select_tag AllTime tag_recent, select_tag AllTime tag_queued])
     \<in> set (fetches demo_trace)"
    by (simp add: demo_trace_def demo_setup_trace_def demo_loop_trace_def)
  from fetch_selects_changed_listed [OF demo_run wm f]
  obtain q where q: "queue_reads demo_trace = [(INDEX_NAME, Inr q)]"
    and holds: "\<forall>t. where_holds (tag_where (fetch_args (Some 20) [3] 0)) t \<longleftrightarrow>
              \<not> unlisted t \<and> \<not> adminOnly t \<and>
              (20 < createdAt t \<or> 20 < updatedAt t \<or> tag_id t \<in> set q)"
    by blast
  have "queue_reads demo_trace = [(INDEX_NAME, Inr [3])]"
    by (simp add: demo_trace_def demo_setup_trace_def demo_loop_trace_def INDEX_NAME_def)
  with q have "q = [3]" by simp
  with holds have "where_holds (tag_where (fetch_args (Some 20) [3] 0)) tag_recent"
    and "where_holds (tag_where (fetch_args (Some 20) [3] 0)) tag_queued"
    and "\<not> where_holds (tag_where (fetch_args (Some 20) [3] 0)) tag_hidden"
    and "\<not> where_holds (tag_where (fetch_args (Some 20) [3] 0)) tag_old"
    by (simp_all add: tag_recent_def tag_queued_def tag_hidden_def tag_old_def)
  with demo_run wm f \<open>queue_reads demo_trace = [(INDEX_NAME, Inr [3])]\<close> show ?thesis
    by simp
qed

text \<open>
  C2, as stated, fails: with the watermark 20, the unlisted tag created at 40 is in the
  store throughout the run, and the run fetches the tags 1 and 3 only.
\<close>

theorem unlisted_changed_tag_counterexample:
  "onIndexUpdate demo_world demo_ctx = Some (Inr (), demo_trace) \<and>
   lastUpdatedAt demo_ctx = Some 20 \<and>
   tag_hidden \<in> set (tag demo_db) \<and> tag_hidden \<in> set (tag demo_db_later) \<and>
   20 < createdAt tag_hidden \<and> tag_id tag_hidden = 2 \<and>
   map r_id (fetched demo_trace) = [1, 3]"
  using demo_run
  by (simp add: demo_ctx_def demo_db_def demo_db_later_def tag_hidden_def fetched_def
      demo_trace_def demo_setup_trace_def demo_loop_trace_def select_tag_def
      tag_recent_def tag_queued_def)

text \<open>
  C3. A run that completes normally ends with one call of \<open>waitForTasks\<close> that resolved,
  made after the loop on the handles of all the tasks that the submissions of the run
  returned; no other wait is made between the read of the queue and that call.
\<close>

theorem all_tasks_awaited:
  assumes "onIndexUpdate w ctx = Some (Inr (), tr)" and "client w = Some c"
  shows "\<exists>tr0 q new.
           onIndexSetup w [] = (Inr (), tr0) \<and>
           tr = tr0 @ QueueFindMany INDEX_NAME (Inr q) # new
                  @ [WaitForTasks (map taskUid (returned_tasks tr)) (Inr ())] \<and>
           waits new = [] \<and>
           submissions tr = submissions new \<and>
           (\<forall>ix docs t. (ix, docs, Inr t) \<in> set (submissions tr) \<longrightarrow>
               taskUid t \<in> set (map taskUid (returned_tasks tr))) \<and>
           waitForTasks c (length tr0 + 1 + length new) (map taskUid (returned_tasks tr)) = Inr ()"
  using assms(2)
proof (cases rule: onIndexUpdate_cases [where ctx = ctx])
  case (setup_rejected e tr0)
  with assms(1) show ?thesis by simp
next
  case (queue_rejected e tr0)
  with assms(1) show ?thesis by simp
next
  case (loop_failed e tr0 q new)
  with assms(1) show ?thesis by simp
next
  case (waited tr0 q new r)
  from waited(5) assms(1) have r: "r = Inr ()"
    and tr: "tr = tr0 @ QueueFindMany INDEX_NAME (Inr q) # new
                  @ [WaitForTasks (map taskUid (returned_tasks new)) r]"
    by simp_all
  from waited(1) have tr0: "returned_tasks tr0 = []" "submissions tr0 = []"
    by (simp_all add: onIndexSetup_nil_events)
  from tr tr0 have tasks: "returned_tasks tr = returned_tasks new"
    and subs: "submissions tr = submissions new"
    by simp_all
  from waited(3) have "waits new = []"
    by (simp add: loop_post_def loop_events_other)
  moreover have "\<forall>ix docs t. (ix, docs, Inr t) \<in> set (submissions tr) \<longrightarrow>
               taskUid t \<in> set (map taskUid (returned_tasks tr))"
    by (auto dest: returned_tasks_member)
  moreover from waited(4) r
  have "waitForTasks c (length tr0 + 1 + length new) (map taskUid (returned_tasks tr)) = Inr ()"
    by (simp add: tasks)
  ultimately show ?thesis
    using waited(1) tr r tasks subs by auto
qed

theorem all_tasks_awaited_witness:
  "onIndexUpdate demo_world demo_ctx = Some (Inr (), demo_trace) \<and>
   client demo_world = Some demo_client \<and>
   map (map_sum id taskUid \<circ> snd \<circ> snd) (submissions demo_trace) = [Inr 6] \<and>
   last demo_trace = WaitForTasks [6] (Inr ()) \<and>
   (\<exists>tr0 q new.
      demo_trace = tr0 @ QueueFindMany INDEX_NAME (Inr q) # new
         @ [WaitForTasks (map taskUid (returned_tasks demo_trace)) (Inr ())] \<and>
      waits new = [])"
proof -
  have c: "client demo_world = Some demo_client"
    by (simp add: demo_world_def)
  from all_tasks_awaited [OF demo_run c]
  have "\<exists>tr0 q new.
      demo_trace = tr0 @ QueueFindMany INDEX_NAME (Inr q) # new
         @ [WaitForTasks (map taskUid (returned_tasks demo_trace)) (Inr ())] \<and>
      waits new = []"
    by blast
  moreover have "map (map_sum id taskUid \<circ> snd \<circ> snd) (submissions demo_trace) = [Inr 6]"
    and "last demo_trace = WaitForTasks [6] (Inr ())"
    by (simp_all add: demo_trace_def demo_setup_trace_def demo_loop_trace_def)
  ultimately show ?thesis using demo_run c by simp
qed

text \<open>
  C4, as amended. Every document a run submits is the document of a row of the store: it
  keeps the id, name, nsfw and category flags of the row, and its \<open>metrics\<close> is one
  object, the six counts of the first all-time metric row of the tag; when the tag has no
  all-time metric row, \<open>metrics\<close> is the empty object, with no metric field in it.
\<close>

theorem metrics_flattened_or_empty:
  assumes "onIndexUpdate w ctx = Some (res, tr)"
    and "(ix, docs, task) \<in> set (submissions tr)"
    and "doc \<in> set docs"
  shows "\<exists>k d t. db ctx k = Inr d \<and> t \<in> set (tag d) \<and>
           d_id doc = tag_id t \<and> d_name doc = name t \<and>
           d_nsfw doc = nsfw t \<and> d_isCategory doc = isCategory t \<and>
           (filter (\<lambda>m. timeframe m = AllTime) (metrics t) = [] \<longrightarrow> d_metrics doc = []) \<and>
           (\<forall>m ms. filter (\<lambda>m. timeframe m = AllTime) (metrics t) = m # ms \<longrightarrow>
              d_metrics doc =
                [(''postCount'', postCount m), (''articleCount'', articleCount m),
                 (''followerCount'', followerCount m), (''modelCount'', modelCount m),
                 (''imageCount'', imageCount m), (''hiddenCount'', hiddenCount m)])"
proof -
  from run_document [OF assms]
  obtain k d t where d: "db ctx k = Inr d" and t: "t \<in> set (tag d)"
    and doc: "doc = indexReadyRecord (select_tag AllTime t)"
    by blast
  from doc have "d_id doc = tag_id t" "d_name doc = name t"
    "d_nsfw doc = nsfw t" "d_isCategory doc = isCategory t"
    by (simp_all add: document_of_tag)
  moreover from doc
  have "filter (\<lambda>m. timeframe m = AllTime) (metrics t) = [] \<longrightarrow> d_metrics doc = []"
    by (simp add: document_of_tag)
  moreover from doc
  have "\<forall>m ms. filter (\<lambda>m. timeframe m = AllTime) (metrics t) = m # ms \<longrightarrow>
      d_metrics doc =
        [(''postCount'', postCount m), (''articleCount'', articleCount m),
         (''followerCount'', followerCount m), (''modelCount'', modelCount m),
         (''imageCount'', imageCount m), (''hiddenCount'', hiddenCount m)]"
    by (simp add: document_of_tag)
  ultimately show ?thesis using d t by blast
qed

theorem metrics_flattened_or_empty_witness:
  "onIndexUpdate demo_world demo_ctx = Some (Inr (), demo_trace) \<and>
   (''tags'',
    [indexReadyRecord (select_tag AllTime tag_recent),
     indexReadyRecord (select_tag AllTime tag_queued)],
    Inr \<lparr>taskUid = 6, indexUid = ''tags''\<rparr>) \<in> set (submissions demo_trace) \<and>
   (\<exists>k d t. db demo_ctx k = Inr d \<and> t \<in> set (tag d) \<and>
      d_id (indexReadyRecord (select_tag AllTime tag_recent)) = tag_id t \<and>
      (filter (\<lambda>m. timeframe m = AllTime) (metrics t) = [] \<longleftrightarrow>
         d_metrics (indexReadyRecord (select_tag AllTime tag_recent)) = [])) \<and>
   d_metrics (indexReadyRecord (select_tag AllTime tag_recent)) =
     [(''postCount'', 7), (''articleCount'', 2), (''followerCount'', 4),
      (''modelCount'', 9), (''imageCount'', 12), (''hiddenCount'', 0)] \<and>
   d_metrics (indexReadyRecord (select_tag AllTime tag_queued)) = []"
proof -
  let ?recent = "indexReadyRecord (select_tag AllTime tag_recent)"
  let ?queued = "indexReadyRecord (select_tag AllTime tag_queued)"
  have s: "(''tags'', [?recent, ?queued], Inr \<lparr>taskUid = 6, indexUid = ''tags''\<rparr>)
      \<in> set (submissions demo_trace)"
    by (simp add: demo_trace_def demo_setup_trace_def demo_loop_trace_def)
  have d: "?recent \<in> set [?recent, ?queued]"
    by simp
  have m: "d_metrics ?recent =
     [(''postCount'', 7), (''articleCount'', 2), (''followerCount'', 4),
      (''modelCount'', 9), (''imageCount'', 12), (''hiddenCount'', 0)]"
    by (simp add: document_of_tag tag_recent_def)
  from metrics_flattened_or_empty [OF demo_run s d]
  obtain k dbs t where "db demo_ctx k = Inr dbs" and "t \<in> set (tag dbs)"
    and "d_id ?recent = tag_id t"
    and "filter (\<lambda>m. timeframe m = AllTime) (metrics t) = [] \<longrightarrow> d_metrics ?recent = []"
    and "\<forall>m ms. filter (\<lambda>m. timeframe m = AllTime) (metrics t) = m # ms \<longrightarrow>
      d_metrics ?recent \<noteq> []"
    by fastforce
  then have "\<exists>k d t. db demo_ctx k = Inr d \<and> t \<in> set (tag d) \<and>
      d_id ?recent = tag_id t \<and>
      (filter (\<lambda>m. timeframe m = AllTime) (metrics t) = [] \<longleftrightarrow> d_metrics ?recent = [])"
    by (metis neq_Nil_conv)
  moreover have "d_metrics ?queued = []"
    by (simp add: document_of_tag tag_queued_def)
  ultimately show ?thesis using demo_run s m by simp
qed

text \<open>
  C4, as stated, fails: the queued tag has no metric row, and the document submitted for
  it in the example run has an empty \<open>metrics\<close>, with no \<open>postCount\<close> in it.
\<close>

theorem metrics_omitted_counterexample:
  "onIndexUpdate demo_world demo_ctx = Some (Inr (), demo_trace) \<and>
   map (map d_metrics \<circ> fst \<circ> snd) (submissions demo_trace) =
     [[[(''postCount'', 7), (''articleCount'', 2), (''followerCount'', 4),
        (''modelCount'', 9), (''imageCount'', 12), (''hiddenCount'', 0)], []]] \<and>
   metrics tag_queued = [] \<and>
   map_of (d_metrics (indexReadyRecord (select_tag AllTime tag_queued))) ''postCount'' = None"
  using demo_run
  by (simp add: demo_trace_def demo_setup_trace_def demo_loop_trace_def indexReadyRecord_def
      select_tag_def select_metric_def metric_object_def tag_recent_def tag_queued_def)

text \<open>
  C5, as amended. If a call of the schema setup is rejected by the engine, the run
  fails with that error having made the calls of the setup only: it reads no queue, fetches
  no record and submits no document.
\<close>

theorem setup_rejected_nothing_written:
  assumes "fst (onIndexSetup w []) = Inl e"
  shows "onIndexUpdate w ctx = Some (Inl e, snd (onIndexSetup w [])) \<and>
         queue_reads (snd (onIndexSetup w [])) = [] \<and>
         fetches (snd (onIndexSetup w [])) = [] \<and>
         submissions (snd (onIndexSetup w [])) = []"
proof -
  obtain tr0 where su: "onIndexSetup w [] = (Inl e, tr0)"
    using assms by (cases "onIndexSetup w []") simp
  have "client w \<noteq> None"
  proof
    assume "client w = None"
    then have "onIndexSetup w [] = (Inr (), [])"
      by (simp add: onIndexSetup_def)
    with su show False by simp
  qed
  with su have "onIndexUpdate w ctx = Some (Inl e, tr0)"
    by (auto simp add: onIndexUpdate_def)
  with su show ?thesis
    by (simp add: onIndexSetup_nil_events)
qed

theorem setup_rejected_nothing_written_witness:
  "fst (onIndexSetup rejecting_world []) =
     Inl (MeiliSearchError ''invalid_settings_sortable_attributes'') \<and>
   onIndexUpdate rejecting_world demo_ctx =
     Some (Inl (MeiliSearchError ''invalid_settings_sortable_attributes''), rejecting_trace) \<and>
   fetches rejecting_trace = [] \<and> submissions rejecting_trace = []"
proof -
  have h: "fst (onIndexSetup rejecting_world []) =
      Inl (MeiliSearchError ''invalid_settings_sortable_attributes'')"
    by (simp add: rejecting_setup)
  from setup_rejected_nothing_written [OF h, of demo_ctx] h show ?thesis
    by (simp add: rejecting_setup)
qed

text \<open>
  C5, as stated, fails: when \<open>getOrCreateIndex\<close> resolves to no index, the setup
  returns without configuring any attribute, and the run goes on to fetch two records and
  to submit them.
\<close>

theorem setup_without_index_counterexample:
  "getOrCreateIndex noindex_world 0 INDEX_NAME = Inr None \<and>
   onIndexSetup noindex_world [] = (Inr (), [GetOrCreateIndex INDEX_NAME (Inr None)]) \<and>
   onIndexUpdate noindex_world demo_ctx = Some (Inr (), noindex_trace) \<and>
   length (fetches noindex_trace) = 2 \<and>
   map (length \<circ> fst \<circ> snd) (submissions noindex_trace) = [2]"
  using noindex_run
  by (simp add: noindex_world_def onIndexSetup_def Let_def noindex_trace_def)

text \<open>
  C6. The claim is that a run without a watermark is a full backfill, every listed record
  being selected; the comment on the query in the source says the same (without
  \<open>lastUpdatedAt\<close> this should generate the entirety of the index). The query does apply
  no restriction, but the run is not a full backfill. The store holds 101 listed tags and
  there is no watermark: the one fetch of the run has no \<open>OR\<close>, the tag 100 is in the
  store and satisfies the query, and the run ends normally having fetched and submitted
  the tags 0 to 99 only.
\<close>

theorem backfill_misses_eligible_record:
  "onIndexUpdate demo_world backfill_ctx = Some (Inr (), crowded_trace) \<and>
   lastUpdatedAt backfill_ctx = None \<and>
   map (w_OR \<circ> tag_where \<circ> fst) (fetches crowded_trace) = [None] \<and>
   numbered_tag 100 \<in> set (tag crowded_db) \<and>
   where_holds (tag_query None []) (numbered_tag 100) \<and>
   map r_id (fetched crowded_trace) = map int [0..<100] \<and>
   tag_id (numbered_tag 100) \<notin> set (map r_id (fetched crowded_trace)) \<and>
   tag_id (numbered_tag 100)
     \<notin> set (concat (map (map d_id \<circ> fst \<circ> snd) (submissions crowded_trace)))"
proof -
  have "lastUpdatedAt backfill_ctx = None"
    by (simp add: backfill_ctx_def)
  moreover have "map (w_OR \<circ> tag_where \<circ> fst) (fetches crowded_trace) = [None]"
    by (simp add: crowded_trace_def crowded_loop_trace_def demo_setup_trace_def tag_query_def)
  moreover have "numbered_tag 100 \<in> set (tag crowded_db)"
    by (simp add: crowded_db_def)
  moreover have "where_holds (tag_query None []) (numbered_tag 100)"
    by (simp add: where_holds_def tag_query_def numbered_tag_def)
  moreover have "tag_id (numbered_tag 100) \<notin> set (map int [0..<100])"
    by (auto simp add: numbered_tag_def)
  ultimately show ?thesis
    using crowded_run crowded_fetched_ids crowded_submitted_ids by simp
qed

text \<open>
  C7. In a run the pending-change queue is read at most once, and no page is fetched
  unless the run has a client and its setup returned normally. In such a run the queue is
  read exactly once, right after the setup and before every fetch, for the entries whose
  type is the index name; each fetch of the run asks for the query built from the ids
  that this one read returned, whatever the queue holds later.
\<close>

theorem queue_read_once:
  assumes "onIndexUpdate w ctx = Some (res, tr)"
  shows "length (queue_reads tr) \<le> 1 \<and>
    (fetches tr \<noteq> [] \<longrightarrow> client w \<noteq> None \<and> fst (onIndexSetup w []) = Inr ()) \<and>
    (client w \<noteq> None \<and> fst (onIndexSetup w []) = Inr () \<longrightarrow>
       (\<exists>tr0 snapshot post.
          onIndexSetup w [] = (Inr (), tr0) \<and>
          snapshot = queue_findMany (db ctx (length tr0)) INDEX_NAME \<and>
          tr = tr0 @ QueueFindMany INDEX_NAME snapshot # post \<and>
          queue_reads tr = [(INDEX_NAME, snapshot)] \<and>
          fetches tr0 = [] \<and>
          (\<forall>d. db ctx (length tr0) = Inr d \<longrightarrow>
             snapshot = Inr (map q_id (filter (\<lambda>x. q_type x = INDEX_NAME)
                                        (searchIndexUpdateQueue d)))) \<and>
          (\<forall>a r. (a, r) \<in> set (fetches post) \<longrightarrow>
             (\<exists>q. snapshot = Inr q \<and> a = fetch_args (lastUpdatedAt ctx) q (skip a)))))"
proof (cases "client w")
  case None
  with assms show ?thesis by (auto simp add: run_without_client)
next
  case (Some c)
  then show ?thesis
  proof (cases rule: onIndexUpdate_cases [where ctx = ctx])
    case (setup_rejected e tr0)
    with assms show ?thesis by (auto simp add: onIndexSetup_nil_events)
  next
    case (queue_rejected e tr0)
    with assms have tr: "tr = tr0 @ QueueFindMany INDEX_NAME (Inl e) # []"
      by simp
    from queue_rejected(1) have tr0: "queue_reads tr0 = []" "fetches tr0 = []"
      by (simp_all add: onIndexSetup_nil_events)
    from Some tr tr0 queue_rejected(1,2) show ?thesis
      by (auto simp add: queue_findMany_def)
  next
    case (loop_failed e tr0 q new)
    with assms have tr: "tr = tr0 @ QueueFindMany INDEX_NAME (Inr q) # new"
      by simp
    from loop_failed(1) have tr0: "queue_reads tr0 = []" "fetches tr0 = []"
      by (simp_all add: onIndexSetup_nil_events)
    from loop_failed(3) have new: "queue_reads new = []"
      by (simp add: loop_post_def loop_events_other)
    from loop_failed(3)
    have args: "\<forall>a r. (a, r) \<in> set (fetches new) \<longrightarrow> a = fetch_args (lastUpdatedAt ctx) q (skip a)"
      by (simp add: loop_post_def fetches_member)
    have snap: "\<forall>d. db ctx (length tr0) = Inr d \<longrightarrow>
        Inr q = Inr (map q_id (filter (\<lambda>x. q_type x = INDEX_NAME) (searchIndexUpdateQueue d)))"
      using loop_failed(2) by (auto simp add: queue_findMany_def)
    from Some tr tr0 new args snap loop_failed(1,2) show ?thesis
      by auto
  next
    case (waited tr0 q new r')
    let ?post = "new @ [WaitForTasks (map taskUid (returned_tasks new)) r']"
    from waited assms have tr: "tr = tr0 @ QueueFindMany INDEX_NAME (Inr q) # ?post"
      by simp
    from waited(1) have tr0: "queue_reads tr0 = []" "fetches tr0 = []"
      by (simp_all add: onIndexSetup_nil_events)
    from waited(3) have new: "queue_reads ?post = []"
      by (simp add: loop_post_def loop_events_other)
    from waited(3)
    have args: "\<forall>a r. (a, r) \<in> set (fetches ?post) \<longrightarrow> a = fetch_args (lastUpdatedAt ctx) q (skip a)"
      by (simp add: loop_post_def fetches_member)
    have snap: "\<forall>d. db ctx (length tr0) = Inr d \<longrightarrow>
        Inr q = Inr (map q_id (filter (\<lambda>x. q_type x = INDEX_NAME) (searchIndexUpdateQueue d)))"
      using waited(2) by (auto simp add: queue_findMany_def)
    have "\<exists>post. tr = tr0 @ QueueFindMany INDEX_NAME (Inr q) # post \<and>
        queue_reads tr = [(INDEX_NAME, Inr q)] \<and>
        (\<forall>a r. (a, r) \<in> set (fetches post) \<longrightarrow> a = fetch_args (lastUpdatedAt ctx) q (skip a))"
      using tr tr0 new args by (intro exI [of _ ?post]) simp
    with Some tr0 snap waited(1,2) show ?thesis
      by auto
  qed
qed

theorem queue_read_once_witness:
  "onIndexUpdate demo_world demo_ctx = Some (Inr (), demo_trace) \<and>
   client demo_world \<noteq> None \<and> fst (onIndexSetup demo_world []) = Inr () \<and>
   queue_reads demo_trace = [(INDEX_NAME, Inr [3])] \<and>
   queue_findMany (db demo_ctx 7) INDEX_NAME = Inr [3, 4] \<and>
   map (tag_where \<circ> fst) (fetches demo_trace) =
     [tag_query (Some 20) [3], tag_query (Some 20) [3]]"
proof -
  have c: "client demo_world \<noteq> None"
    by (simp add: demo_world_def)
  have su: "fst (onIndexSetup demo_world []) = Inr ()"
    by (simp add: demo_setup)
  from queue_read_once [OF demo_run] c su
  have "queue_reads demo_trace = [(INDEX_NAME, Inr [3])]"
    by (auto simp add: demo_setup demo_queue)
  moreover have "queue_findMany (db demo_ctx 7) INDEX_NAME = Inr [3, 4]"
    by (simp add: queue_findMany_def demo_ctx_def demo_db_later_def demo_db_def INDEX_NAME_def)
  moreover have "map (tag_where \<circ> fst) (fetches demo_trace) =
     [tag_query (Some 20) [3], tag_query (Some 20) [3]]"
    by (simp add: demo_trace_def demo_setup_trace_def demo_loop_trace_def)
  ultimately show ?thesis using demo_run c su by simp
qed

text \<open>
  C8. The fetch loop returns, whatever the store and the engine answer. Entered at an
  offset below the batch size it fetches at that offset; it ends there when the fetch is
  rejected or returns no record, or when the submission of the page is rejected; otherwise
  it goes on as the loop entered at that offset plus the number of records the fetch
  returned, so that the next fetch, if the bound allows one, is at exactly that offset and
  the loop ends without one only when that offset is not below the batch size. The
  whole run returns as well, and its fetches and submissions are those of the loop
  entered at offset 0.
\<close>

theorem fetch_loop_terminates:
  "(\<exists>res new. fetch_loop c ctx q offset tasks tr0 = Some (res, tr0 @ new) \<and>
       loop_run offset new \<and>
       offsets_chain offset (fetches new) \<and>
       offset + length (fetches new) \<le> max offset READ_BATCH_SIZE) \<and>
   (\<exists>res tr. onIndexUpdate w ctx = Some (res, tr) \<and>
       offsets_chain 0 (fetches tr) \<and> length (fetches tr) \<le> READ_BATCH_SIZE \<and>
       (\<forall>ids. queue_reads tr = [(INDEX_NAME, Inr ids)] \<longrightarrow> loop_run 0 (loop_events tr)))"
proof
  obtain r where "fetch_loop c ctx q offset tasks tr0 = Some r"
    using fetch_loop_returns by blast
  then obtain res tr' where loop: "fetch_loop c ctx q offset tasks tr0 = Some (res, tr')"
    by (cases r) auto
  with fetch_loop_post [of c ctx q offset tasks tr0 res tr']
  obtain new where new: "tr' = tr0 @ new" and post: "loop_post ctx q offset tasks res new"
    by blast
  from loop new fetch_loop_run [of c ctx q offset tasks tr0 res tr']
  have "loop_run offset new"
    by auto
  with loop new post
  show "\<exists>res new. fetch_loop c ctx q offset tasks tr0 = Some (res, tr0 @ new) \<and>
       loop_run offset new \<and>
       offsets_chain offset (fetches new) \<and>
       offset + length (fetches new) \<le> max offset READ_BATCH_SIZE"
    by (auto simp add: loop_post_def)
next
  show "\<exists>res tr. onIndexUpdate w ctx = Some (res, tr) \<and>
       offsets_chain 0 (fetches tr) \<and> length (fetches tr) \<le> READ_BATCH_SIZE \<and>
       (\<forall>ids. queue_reads tr = [(INDEX_NAME, Inr ids)] \<longrightarrow> loop_run 0 (loop_events tr))"
  proof (cases "client w")
    case None
    then show ?thesis by (simp add: run_without_client)
  next
    case (Some c')
    then show ?thesis
    proof (cases rule: onIndexUpdate_cases [where ctx = ctx])
      case (setup_rejected e tr0)
      then show ?thesis by (simp add: onIndexSetup_nil_events)
    next
      case (queue_rejected e tr0)
      then show ?thesis by (simp add: onIndexSetup_nil_events)
    next
      case (loop_failed e tr0 q' new)
      from loop_failed(1) have "loop_events tr0 = []"
        by (simp add: onIndexSetup_nil_events loop_events_none)
      moreover from loop_failed(3) have "loop_events new = new"
        by (simp add: loop_post_def loop_events_all)
      ultimately show ?thesis
        using loop_failed by (simp add: onIndexSetup_nil_events loop_post_def)
    next
      case (waited tr0 q' new r)
      from waited(1) have "loop_events tr0 = []"
        by (simp add: onIndexSetup_nil_events loop_events_none)
      moreover from waited(3) have "loop_events new = new"
        by (simp add: loop_post_def loop_events_all)
      ultimately show ?thesis
        using waited by (simp add: onIndexSetup_nil_events loop_post_def)
    qed
  qed
qed

theorem fetch_loop_terminates_witness:
  "onIndexUpdate demo_world demo_ctx = Some (Inr (), demo_trace) \<and>
   offsets_chain 0 (fetches demo_trace) \<and>
   loop_events demo_trace = demo_loop_trace \<and>
   loop_run 0 demo_loop_trace \<and>
   map (skip \<circ> fst) (fetches demo_trace) = [0, 2] \<and>
   map (length \<circ> page_of) (fetches demo_trace) = [2, 0]"
proof -
  from fetch_loop_terminates [of demo_client demo_ctx "[3]" 0 "[]" "[]" demo_world]
  obtain res tr where "onIndexUpdate demo_world demo_ctx = Some (res, tr)"
    and "offsets_chain 0 (fetches tr)"
    and "\<forall>ids. queue_reads tr = [(INDEX_NAME, Inr ids)] \<longrightarrow> loop_run 0 (loop_events tr)"
    by blast
  with demo_run have chain: "offsets_chain 0 (fetches demo_trace)"
    and run: "\<forall>ids. queue_reads demo_trace = [(INDEX_NAME, Inr ids)]
                \<longrightarrow> loop_run 0 (loop_events demo_trace)"
    by simp_all
  have "queue_reads demo_trace = [(INDEX_NAME, Inr [3])]"
    by (simp add: demo_trace_def demo_setup_trace_def demo_loop_trace_def INDEX_NAME_def)
  with run have "loop_run 0 (loop_events demo_trace)"
    by blast
  moreover have ev: "loop_events demo_trace = demo_loop_trace"
    by (simp add: demo_trace_def demo_setup_trace_def demo_loop_trace_def)
  moreover have "map (skip \<circ> fst) (fetches demo_trace) = [0, 2]"
    and "map (length \<circ> page_of) (fetches demo_trace) = [2, 0]"
    by (simp_all add: demo_trace_def demo_setup_trace_def demo_loop_trace_def)
  ultimately show ?thesis using demo_run chain by simp
qed

text \<open>
  C9. Every record of every page a run fetched is the selection of a row of the store
  with \<open>unlisted = false\<close> and \<open>adminOnly = false\<close>, and every document a run submitted
  is the document of such a row, whatever the watermark and the queue.
\<close>

theorem hidden_tags_never_indexed:
  assumes "onIndexUpdate w ctx = Some (res, tr)"
  shows "(\<forall>a page record. (a, Inr page) \<in> set (fetches tr) \<longrightarrow> record \<in> set page \<longrightarrow>
            (\<exists>k d t. db ctx k = Inr d \<and> t \<in> set (tag d) \<and>
                unlisted t = False \<and> adminOnly t = False \<and>
                record = select_tag AllTime t)) \<and>
         (\<forall>ix docs task doc. (ix, docs, task) \<in> set (submissions tr) \<longrightarrow> doc \<in> set docs \<longrightarrow>
            (\<exists>k d t. db ctx k = Inr d \<and> t \<in> set (tag d) \<and>
                unlisted t = False \<and> adminOnly t = False \<and>
                doc = indexReadyRecord (select_tag AllTime t)))"
  using run_record [OF assms] run_document [OF assms] by blast

theorem hidden_tags_never_indexed_witness:
  "onIndexUpdate demo_world demo_ctx = Some (Inr (), demo_trace) \<and>
   (fetch_args (Some 20) [3] 0,
      Inr [select_tag AllTime tag_recent, select_tag AllTime tag_queued])
     \<in> set (fetches demo_trace) \<and>
   select_tag AllTime tag_queued
     \<in> set [select_tag AllTime tag_recent, select_tag AllTime tag_queued] \<and>
   (\<exists>k d t. db demo_ctx k = Inr d \<and> t \<in> set (tag d) \<and>
       unlisted t = False \<and> adminOnly t = False \<and>
       select_tag AllTime tag_queued = select_tag AllTime t) \<and>
   map (map d_id \<circ> fst \<circ> snd) (submissions demo_trace) = [[1, 3]]"
proof -
  have f: "(fetch_args (Some 20) [3] 0,
      Inr [select_tag AllTime tag_recent, select_tag AllTime tag_queued])
     \<in> set (fetches demo_trace)"
    by (simp add: demo_trace_def demo_setup_trace_def demo_loop_trace_def)
  have r: "select_tag AllTime tag_queued
     \<in> set [select_tag AllTime tag_recent, select_tag AllTime tag_queued]"
    by simp
  from hidden_tags_never_indexed [OF demo_run] f r
  have "\<exists>k d t. db demo_ctx k = Inr d \<and> t \<in> set (tag d) \<and>
       unlisted t = False \<and> adminOnly t = False \<and>
       select_tag AllTime tag_queued = select_tag AllTime t"
    by blast
  moreover have "map (map d_id \<circ> fst \<circ> snd) (submissions demo_trace) = [[1, 3]]"
    by (simp add: demo_trace_def demo_setup_trace_def demo_loop_trace_def indexReadyRecord_def
        select_tag_def tag_recent_def tag_queued_def)
  ultimately show ?thesis using demo_run f r by simp
qed

text \<open>
  C10. Without a search engine client, neither function does anything: the setup
  returns at once, and the run returns normally with no call made (no read of the queue,
  no fetch, no submission, no wait) and no error.
\<close>

theorem no_client_nothing_done:
  assumes "client w = None"
  shows "onIndexSetup w tr0 = (Inr (), tr0) \<and> onIndexUpdate w ctx = Some (Inr (), [])"
  using assms by (simp add: onIndexSetup_def onIndexUpdate_def)

theorem no_client_nothing_done_witness:
  "client offline_world = None \<and>
   onIndexSetup offline_world [] = (Inr (), []) \<and>
   onIndexUpdate offline_world demo_ctx = Some (Inr (), [])"
proof -
  have h: "client offline_world = None"
    by (simp add: offline_world_def)
  from no_client_nothing_done [OF h, of "[]" demo_ctx] h show ?thesis
    by simp
qed

end
